(* ===== verification/Prelude.thy ===== *)
theory Prelude
  imports Main "HOL-Library.Word"
begin

text \<open>
  Shared vocabulary of the development: machine integers, the outcomes of kernel code
  (a value and a new state, or a crash), sequencing of stateful steps, the total-correctness
  predicate \<open>runs\<close> with its rules, array accesses that check their bounds, loops over an
  index range, and runs of consecutive bus addresses.
\<close>

unbundle bit_operations_syntax

named_theorems prog_simps \<open>unfolding rules for sequences of program steps\<close>
named_theorems runs_intros \<open>rules for the total-correctness predicate\<close>

section \<open>Machine integers\<close>

type_synonym u8 = "8 word"
type_synonym u16 = "16 word"
type_synonym u32 = "32 word"
type_synonym u64 = "64 word"

text \<open>
  Conversion of an unsigned 64-bit value to the C type \<open>int\<close> (32 bits, two's complement).
  C ints are HOL integers in this development; every narrowing conversion is written out with
  \<open>c_int\<close>, every conversion back to an unsigned type with \<open>word_of_int\<close>.
\<close>

definition c_int :: "u64 \<Rightarrow> int" where
  "c_int x = sint (ucast x :: u32)"

definition INT_MAX :: int where
  "INT_MAX = 2147483647"

lemma sint_small:
  assumes "unat (x :: u32) < 2 ^ 31"
  shows "sint x = int (unat x)"
proof -
  have u: "uint x < 2 ^ 31"
    using assms by (metis of_nat_less_numeral_power_cancel_iff uint_nat)
  have low: "- (2 ^ 31) \<le> uint x"
    by (rule order_trans [OF _ uint_ge_0]) simp
  have "sint x = signed_take_bit 31 (uint x)"
    by (simp add: sint_uint)
  also have "\<dots> = uint x"
    by (rule signed_take_bit_int_eq_self) (fact low u)+
  finally show ?thesis
    by simp
qed

lemma unat_ucast_up [simp]: "unat (ucast (x :: u32) :: u64) = unat x"
proof -
  have "unat x < 2 ^ 32" using unsigned_less [of x, where 'a = nat] by simp
  then show ?thesis by (simp add: unsigned_ucast_eq take_bit_nat_eq_self)
qed

lemma unat_ucast_down: "unat (x :: u64) < 2 ^ 32 \<Longrightarrow> unat (ucast x :: u32) = unat x"
  by (simp add: unsigned_ucast_eq take_bit_nat_eq_self)

lemma c_int_small: "unat x < 2 ^ 31 \<Longrightarrow> c_int x = int (unat x)"
  by (simp add: c_int_def sint_small unat_ucast_down)

lemma unat_add_minus_one:
  fixes a n :: u64
  assumes "n \<noteq> 0" and "unat a + unat n \<le> 2 ^ 64"
  shows "unat (a + n - 1) = unat a + unat n - 1"
proof -
  have n1: "unat (n - 1) = unat n - 1"
    using assms(1) by (simp add: unat_minus_one)
  have pos: "0 < unat n"
    using assms(1) by (simp add: unat_gt_0)
  have "a + n - 1 = a + (n - 1)" by simp
  also have "unat \<dots> = unat a + unat (n - 1)"
    using assms n1 pos by (subst unat_add_lem [THEN iffD1]) auto
  finally show ?thesis using n1 pos by simp
qed

lemma ucast_add_u32:
  assumes "unat (a :: u32) + unat b < 2 ^ 32"
  shows "ucast (a + b) = (ucast a + ucast b :: u64)"
proof (rule unsigned_word_eqI)
  have "unat (ucast a + ucast b :: u64) = unat a + unat b"
    using assms by (subst unat_add_lem [THEN iffD1]) simp_all
  moreover have "unat (a + b) = unat a + unat b"
    using assms by (subst unat_add_lem [THEN iffD1]) simp_all
  ultimately show "unat (ucast (a + b) :: u64) = unat (ucast a + ucast b :: u64)" by simp
qed

section \<open>Outcomes and sequencing\<close>

text \<open>
  What stops kernel code in the middle: a \<open>BUG_ON\<close> whose condition holds, an access through
  a pointer that points to no live object (\<open>NULL\<close> included), and an access past the end of
  an array.
\<close>

datatype crash = Bug_On | Bad_Pointer | Out_Of_Bounds

type_synonym ('w, 'a) prog = "'w \<Rightarrow> crash + ('a \<times> 'w)"

definition ret :: "'a \<Rightarrow> ('w, 'a) prog" where
  "ret a w = Inr (a, w)"

definition mbind :: "('w, 'a) prog \<Rightarrow> ('a \<Rightarrow> ('w, 'b) prog) \<Rightarrow> ('w, 'b) prog" where
  "mbind m f w = (case m w of Inl c \<Rightarrow> Inl c | Inr (a, w1) \<Rightarrow> f a w1)"

definition mthen :: "('w, unit) prog \<Rightarrow> ('w, 'b) prog \<Rightarrow> ('w, 'b) prog" where
  "mthen m k = mbind m (\<lambda>_. k)"

definition crash_with :: "crash \<Rightarrow> ('w, 'a) prog" where
  "crash_with c w = Inl c"

definition bug_on :: "bool \<Rightarrow> ('w, unit) prog" where
  "bug_on b = (if b then crash_with Bug_On else ret ())"

definition get_state :: "('w \<Rightarrow> 'a) \<Rightarrow> ('w, 'a) prog" where
  "get_state f w = Inr (f w, w)"

definition modify :: "('w \<Rightarrow> 'w) \<Rightarrow> ('w, unit) prog" where
  "modify f w = Inr ((), f w)"

definition lift_result :: "crash + 'a \<Rightarrow> ('w, 'a) prog" where
  "lift_result r w = (case r of Inl c \<Rightarrow> Inl c | Inr a \<Rightarrow> Inr (a, w))"

lemma if_prog [prog_simps]: "(if b then m else n) w = (if b then m w else n w)"
  by simp

lemma mbind_ret [prog_simps]: "mbind (ret a) f = f a"
  by (rule ext) (simp add: mbind_def ret_def)

lemma mbind_assoc: "mbind (mbind m f) g = mbind m (\<lambda>a. mbind (f a) g)"
  by (rule ext) (simp add: mbind_def split: sum.splits prod.splits)

lemmas prog_defs = mbind_def mthen_def ret_def crash_with_def bug_on_def get_state_def
  modify_def lift_result_def

section \<open>Total correctness\<close>

text \<open>
  \<open>runs m w Q\<close>: started in \<open>w\<close>, the step \<open>m\<close> does not crash, and its value and
  final state satisfy \<open>Q\<close>.
\<close>

definition runs :: "('w, 'a) prog \<Rightarrow> 'w \<Rightarrow> ('a \<Rightarrow> 'w \<Rightarrow> bool) \<Rightarrow> bool" where
  "runs m w Q \<longleftrightarrow> (case m w of Inl _ \<Rightarrow> False | Inr (a, w') \<Rightarrow> Q a w')"

lemma runs_iff: "runs m w Q \<longleftrightarrow> (\<exists>a w'. m w = Inr (a, w') \<and> Q a w')"
  by (auto simp: runs_def split: sum.splits prod.splits)

lemma runs_ret [simp]: "runs (ret a) w Q = Q a w"
  by (simp add: runs_def ret_def)

lemma runs_mbind [simp]: "runs (mbind m f) w Q = runs m w (\<lambda>a w1. runs (f a) w1 Q)"
  by (auto simp: runs_def mbind_def split: sum.splits prod.splits)

lemma runs_mbind_eq: "m w = Inr (a, w1) \<Longrightarrow> runs (mbind m f) w Q = runs (f a) w1 Q"
  by (simp add: runs_def mbind_def)

lemma runs_mthen [simp]: "runs (mthen m k) w Q = runs m w (\<lambda>_ w1. runs k w1 Q)"
  by (simp add: mthen_def)

lemma runs_crash [simp]: "\<not> runs (crash_with c) w Q"
  by (simp add: runs_def crash_with_def)

lemma runs_bug_on [simp]: "runs (bug_on b) w Q \<longleftrightarrow> \<not> b \<and> Q () w"
  by (simp add: bug_on_def)

lemma runs_get_state [simp]: "runs (get_state f) w Q = Q (f w) w"
  by (simp add: runs_def get_state_def)

lemma runs_modify [simp]: "runs (modify f) w Q = Q () (f w)"
  by (simp add: runs_def modify_def)

lemma runs_if [simp]: "runs (if b then m else n) w Q = (if b then runs m w Q else runs n w Q)"
  by simp

lemma runs_weaken [runs_intros]:
  "runs m w P \<Longrightarrow> (\<And>a w'. P a w' \<Longrightarrow> Q a w') \<Longrightarrow> runs m w Q"
  by (auto simp: runs_iff)

lemma runs_conj: "runs m w P \<Longrightarrow> runs m w Q \<Longrightarrow> runs m w (\<lambda>a w'. P a w' \<and> Q a w')"
  by (auto simp: runs_iff)

lemma runs_eq: "runs m w (\<lambda>a w'. a = a0 \<and> w' = w0) \<Longrightarrow> runs m w Q = Q a0 w0"
  by (auto simp: runs_def split: sum.splits)

lemma runsD: "runs m w Q \<Longrightarrow> m w = Inr (a, w') \<Longrightarrow> Q a w'"
  by (simp add: runs_def)

section \<open>Arrays and index loops\<close>

definition arr_get :: "'a list \<Rightarrow> nat \<Rightarrow> crash + 'a" where
  "arr_get xs i = (if i < length xs then Inr (xs ! i) else Inl Out_Of_Bounds)"

definition arr_read :: "'a list \<Rightarrow> nat \<Rightarrow> ('w, 'a) prog" where
  "arr_read xs i = lift_result (arr_get xs i)"

text \<open>Read-modify-write of one element of the array that is the state.\<close>

definition arr_upd :: "nat \<Rightarrow> ('a \<Rightarrow> 'a) \<Rightarrow> ('a list, unit) prog" where
  "arr_upd i f xs = (if i < length xs then Inr ((), xs[i := f (xs ! i)]) else Inl Out_Of_Bounds)"

lemma runs_arr_read [simp]: "runs (arr_read xs i) w Q \<longleftrightarrow> i < length xs \<and> Q (xs ! i) w"
  by (simp add: runs_def arr_read_def arr_get_def lift_result_def)

lemma runs_arr_upd [simp]:
  "runs (arr_upd i f) xs Q \<longleftrightarrow> i < length xs \<and> Q () (xs[i := f (xs ! i)])"
  by (simp add: runs_def arr_upd_def)

text \<open>\<open>foldM f is a\<close> runs the body \<open>f\<close> for each index, threading the loop variables.\<close>

fun foldM :: "('i \<Rightarrow> 'a \<Rightarrow> ('w, 'a) prog) \<Rightarrow> 'i list \<Rightarrow> 'a \<Rightarrow> ('w, 'a) prog" where
  "foldM f [] a = ret a"
| "foldM f (i # is) a = mbind (f i a) (foldM f is)"

text \<open>A loop without variables of its own.\<close>

definition forM :: "'i list \<Rightarrow> ('i \<Rightarrow> ('w, unit) prog) \<Rightarrow> ('w, unit) prog" where
  "forM is f = foldM (\<lambda>i _. f i) is ()"

lemma forM_Nil [simp]: "forM [] f = ret ()"
  by (simp add: forM_def)

lemma forM_Cons [simp]: "forM (i # is) f = mthen (f i) (forM is f)"
proof -
  have u: "(\<lambda>a. foldM (\<lambda>i _. f i) is a) = (\<lambda>_. foldM (\<lambda>i _. f i) is ())"
    by (rule ext) simp
  show ?thesis
    by (simp add: forM_def mthen_def)
qed

lemma runs_foldM_upt [runs_intros]:
  assumes step: "\<And>i a w. m \<le> i \<Longrightarrow> i < n \<Longrightarrow> I i a w \<Longrightarrow> runs (f i a) w (I (Suc i))"
    and init: "I m a w" and le: "m \<le> n"
  shows "runs (foldM f [m..<n] a) w (I n)"
  using step init le
proof (induction "n - m" arbitrary: m a w)
  case 0
  then show ?case by simp
next
  case (Suc d)
  then have mn: "m < n" by simp
  then have "runs (f m a) w (I (Suc m))"
    using Suc.prems by simp
  moreover have "runs (foldM f [Suc m..<n] a') w' (I n)" if "I (Suc m) a' w'" for a' w'
    using Suc.prems(1) that mn Suc.hyps(2) by (intro Suc.hyps(1)) auto
  ultimately show ?case
    using mn by (auto simp: upt_conv_Cons intro: runs_weaken)
qed

lemma runs_forM_upt [runs_intros]:
  assumes "\<And>i w. m \<le> i \<Longrightarrow> i < n \<Longrightarrow> I i w \<Longrightarrow> runs (f i) w (\<lambda>_. I (Suc i))"
    and "I m w" and "m \<le> n"
  shows "runs (forM [m..<n] f) w (\<lambda>_. I n)"
  unfolding forM_def
  by (rule runs_foldM_upt [where I = "\<lambda>i _. I i"]) (use assms in auto)

lemma map_upt_add: "map f [0..<a + b] = map f [0..<a] @ map (\<lambda>k. f (a + k)) [0..<b]"
  by (rule nth_equalityI) (auto simp: nth_append)

lemma take_Suc_update: "i < length l \<Longrightarrow> take (Suc i) (l[i := e]) = take i l @ [e]"
  by (simp add: take_Suc_conv_app_nth)

section \<open>Runs of consecutive addresses\<close>

definition span :: "u64 \<Rightarrow> nat \<Rightarrow> u64 list" where
  "span a n = map (\<lambda>k. a + of_nat k) [0..<n]"

lemma length_span [simp]: "length (span a n) = n"
  by (simp add: span_def)

lemma span_0 [simp]: "span a 0 = []"
  by (simp add: span_def)

lemma nth_span [simp]: "k < n \<Longrightarrow> span a n ! k = a + of_nat k"
  by (simp add: span_def)

lemma span_append: "span a (m + n) = span a m @ span (a + of_nat m) n"
proof (rule nth_equalityI)
  fix k
  assume "k < length (span a (m + n))"
  then show "span a (m + n) ! k = (span a m @ span (a + of_nat m) n) ! k"
    by (auto simp: nth_append algebra_simps simp flip: of_nat_add)
qed simp

end
