(* ===== verification/Xpcie_H.thy ===== *)
theory Xpcie_H
  imports Prelude
begin

text \<open>
  The data model of \<^verbatim>\<open>driver/xpcie.h\<close>: constants, the register blocks of the
  XDMA core as structure layouts, and the structures the driver passes around. Fields of
  structures keep their C names; kernel structures appear with the fields the driver touches.
  The kernel configuration is that of a 64-bit x86 host: \<open>unsigned long\<close>, \<open>size_t\<close>,
  \<open>dma_addr_t\<close> and pointers are 64 bits wide and a page has 4096 bytes.
\<close>

section \<open>Constants\<close>

definition PAGE_SHIFT :: nat where
  "PAGE_SHIFT = 12"

definition PAGE_SIZE :: u64 where
  "PAGE_SIZE = 4096"

definition PAGE_MASK :: u64 where
  "PAGE_MASK = NOT (PAGE_SIZE - 1)"

definition MAX_EXTRA_ADJ :: int where
  "MAX_EXTRA_ADJ = 15"

definition LS_BYTE_MASK :: u32 where
  "LS_BYTE_MASK = 0xFF"

definition XDMA_DESC_MAX_BYTES :: u64 where
  "XDMA_DESC_MAX_BYTES = push_bit 18 1 - 1"

definition XDMA_CTRL_RUN_STOP :: u32 where
  "XDMA_CTRL_RUN_STOP = push_bit 0 1"

definition XDMA_CTRL_IE_DESC_STOPPED :: u32 where
  "XDMA_CTRL_IE_DESC_STOPPED = push_bit 1 1"

definition XDMA_CTRL_IE_DESC_ALIGN_MISMATCH :: u32 where
  "XDMA_CTRL_IE_DESC_ALIGN_MISMATCH = push_bit 3 1"

definition XDMA_CTRL_IE_MAGIC_STOPPED :: u32 where
  "XDMA_CTRL_IE_MAGIC_STOPPED = push_bit 4 1"

definition XDMA_CTRL_IE_READ_ERROR :: u32 where
  "XDMA_CTRL_IE_READ_ERROR = push_bit 9 0x1F"

definition XDMA_CTRL_IE_DESC_ERROR :: u32 where
  "XDMA_CTRL_IE_DESC_ERROR = push_bit 19 0x1F"

definition XDMA_DESC_STOPPED :: u32 where
  "XDMA_DESC_STOPPED = push_bit 0 1"

definition XDMA_DESC_COMPLETED :: u32 where
  "XDMA_DESC_COMPLETED = push_bit 1 1"

definition XDMA_DESC_EOP :: u32 where
  "XDMA_DESC_EOP = push_bit 4 1"

definition DESC_MAGIC :: u32 where
  "DESC_MAGIC = 0xAD4B0000"

definition TARGET_SPACING :: u64 where
  "TARGET_SPACING = 0x1000"

section \<open>64-bit addresses as two 32-bit halves\<close>

text \<open>
  \<open>PCI_DMA_H\<close> and \<open>PCI_DMA_L\<close> compute on the 64-bit address; the result is converted
  to 32 bits where the driver passes it to \<open>cpu_to_le32\<close>. \<open>dma_join\<close> is how the device
  reads the pair back.
\<close>

definition PCI_DMA_H :: "u64 \<Rightarrow> u64" where
  "PCI_DMA_H addr = drop_bit 16 (drop_bit 16 addr)"

definition PCI_DMA_L :: "u64 \<Rightarrow> u64" where
  "PCI_DMA_L addr = addr AND 0xffffffff"

definition dma_join :: "u32 \<Rightarrow> u32 \<Rightarrow> u64" where
  "dma_join hi lo = push_bit 32 (ucast hi) OR ucast lo"

lemma dma_join_split [simp]:
  "dma_join (ucast (PCI_DMA_H a)) (ucast (PCI_DMA_L a)) = a"
proof (rule bit_word_eqI)
  fix n
  assume n: "n < LENGTH(64)"
  have m: "(0xffffffff :: u64) = mask 32"
    by (simp add: mask_eq_exp_minus_1)
  show "bit (dma_join (ucast (PCI_DMA_H a)) (ucast (PCI_DMA_L a))) n = bit a n"
    using n by (auto simp: dma_join_def PCI_DMA_H_def PCI_DMA_L_def m bit_simps)
qed

section \<open>Register blocks\<close>

text \<open>
  A register block is a packed structure of 32-bit registers: a list of field names with the
  number of 32-bit words of each field. \<open>field_offset\<close> is C's \<open>offsetof\<close>.
\<close>

type_synonym layout = "(string \<times> nat) list"

fun field_offset :: "layout \<Rightarrow> string \<Rightarrow> nat option" where
  "field_offset [] f = None"
| "field_offset ((g, n) # fs) f =
     (if f = g then Some 0 else map_option (\<lambda>k. 4 * n + k) (field_offset fs f))"

definition struct_size :: "layout \<Rightarrow> nat" where
  "struct_size fs = 4 * sum_list (map snd fs)"

lemma field_offset_bound:
  "field_offset fs f = Some k \<Longrightarrow> \<forall>(g, n) \<in> set fs. 0 < n \<Longrightarrow> k + 4 \<le> struct_size fs"
  by (induction fs arbitrary: k) (auto simp: struct_size_def split: if_splits)

definition engine_regs_struct :: layout where
  "engine_regs_struct =
    [(''identifier'', 1), (''control'', 1), (''control_w1s'', 1), (''control_w1c'', 1),
     (''reserved_1'', 12),
     (''status'', 1), (''status_rc'', 1), (''completed_desc_count'', 1), (''alignments'', 1),
     (''reserved_2'', 14),
     (''poll_mode_wb_lo'', 1), (''poll_mode_wb_hi'', 1), (''interrupt_enable_mask'', 1),
     (''interrupt_enable_mask_w1s'', 1), (''interrupt_enable_mask_w1c'', 1),
     (''reserved_3'', 9),
     (''perf_ctrl'', 1), (''perf_cyc_lo'', 1), (''perf_cyc_hi'', 1), (''perf_dat_lo'', 1),
     (''perf_dat_hi'', 1), (''perf_pnd_lo'', 1), (''perf_pnd_hi'', 1)]"

definition engine_sgdma_regs_struct :: layout where
  "engine_sgdma_regs_struct =
    [(''identifier'', 1), (''reserved_1'', 31), (''first_desc_lo'', 1), (''first_desc_hi'', 1),
     (''first_desc_adjacent'', 1), (''credits'', 1)]"

definition sgdma_common_regs_struct :: layout where
  "sgdma_common_regs_struct =
    [(''identifier'', 1), (''padding1'', 3), (''control'', 1), (''padding2'', 4),
     (''credit_feature_enable'', 1)]"

text \<open>The address of a register: the block's address plus the field's offset.\<close>

definition reg_addr :: "layout \<Rightarrow> u64 \<Rightarrow> string \<Rightarrow> u64" where
  "reg_addr fs base f = (case field_offset fs f of Some k \<Rightarrow> base + of_nat k | None \<Rightarrow> base)"

section \<open>Structures\<close>

text \<open>A descriptor as it lies in memory: every field holds a little-endian word.\<close>

record xdma_desc =
  control :: u32
  bytes :: u32
  src_addr_lo :: u32
  src_addr_hi :: u32
  dst_addr_lo :: u32
  dst_addr_hi :: u32
  next_lo :: u32
  next_hi :: u32

definition sizeof_xdma_desc :: u64 where
  "sizeof_xdma_desc = 32"

text \<open>The kernel's scatter-gather entry, with the fields the driver reads or writes.\<close>

record scatterlist =
  page_link :: u64
  offset :: u32
  sg_len :: u32
  dma_address :: u64
  dma_length :: u32

definition zero_sg :: scatterlist where
  "zero_sg = \<lparr>page_link = 0, offset = 0, sg_len = 0, dma_address = 0, dma_length = 0\<rparr>"

text \<open>\<open>sgl\<close> and \<open>pages\<close> are pointers to arrays in the heap.\<close>

record sg_mapping_t =
  sgl :: u64
  pages :: u64
  max_pages :: int
  mapped_pages :: int

definition zero_sgm :: sg_mapping_t where
  "zero_sgm = \<lparr>sgl = 0, pages = 0, max_pages = 0, mapped_pages = 0\<rparr>"

text \<open>
  The list head, wait queue and completion buffer of \<open>struct xdma_transfer\<close> are only zeroed
  by the driver and never read, and are left out.
\<close>

record xdma_transfer =
  desc_virt :: u64
  desc_bus :: u64
  desc_adjacent :: int
  desc_num :: int
  dir_to_dev :: int
  sgl_nents :: int
  sgm :: u64
  userspace :: int
  cyclic :: int
  last_in_request :: int
  size_of_request :: int

definition zero_transfer :: xdma_transfer where
  "zero_transfer = \<lparr>desc_virt = 0, desc_bus = 0, desc_adjacent = 0, desc_num = 0, dir_to_dev = 0,
     sgl_nents = 0, sgm = 0, userspace = 0, cyclic = 0, last_in_request = 0, size_of_request = 0\<rparr>"

end
