(* ===== verification/Kernel.thy ===== *)
theory Kernel
  imports Xpcie_H
begin

text \<open>
  The state the driver runs in and the interface of the kernel it calls.

  \<open>world\<close> holds the driver's global variables, the heap objects the driver reads and writes,
  and the trace of every call to the kernel that has an effect outside the driver's memory.
  \<open>kapi\<close> is a parameter of every definition that calls the kernel: what a kernel function
  returns is a function of the world at the call (so of everything that happened before) and of
  the arguments. Nothing is assumed about it here; the documented behaviour that a theorem
  relies on is stated by one of the predicates of the last section.
\<close>

section \<open>Events\<close>

datatype dma_dir = DMA_TO_DEVICE | DMA_FROM_DEVICE

text \<open>Memory: allocation and user pages.\<close>

datatype mem_event =
    E_kcalloc u64 u64 u64 \<comment> \<open>count, element size, pointer returned\<close>
  | E_kfree u64
  | E_get_user_pages u64 int bool "u64 list" \<comment> \<open>start, number, write, pages pinned\<close>
  | E_put_page u64
  | E_set_page_dirty u64
  | E_flush_dcache_page u64

text \<open>DMA mappings and coherent memory.\<close>

datatype dma_event =
    E_map_sg u64 u64 int dma_dir int \<comment> \<open>device, list, entries, direction, entries mapped\<close>
  | E_unmap_sg u64 u64 int dma_dir
  | E_alloc_coherent u64 u64 u64 u64 \<comment> \<open>device, size, virtual and bus address\<close>
  | E_free_coherent u64 u64 u64 u64

text \<open>Device registers, delays and warnings.\<close>

datatype io_event =
    E_iowrite32 u32 u64
  | E_ioread32 u64 u32
  | E_mdelay nat
  | E_warn_on

text \<open>The PCI device.\<close>

datatype pci_event =
    E_enable_device u64 int
  | E_disable_device u64
  | E_set_master u64
  | E_request_regions u64 int
  | E_release_regions u64
  | E_iomap u64 int u64 u64 \<comment> \<open>device, index, length, address\<close>
  | E_iounmap u64 u64
  | E_set_dma_mask u64 nat int \<comment> \<open>device, bits, result\<close>
  | E_set_consistent_dma_mask u64 nat
  | E_remap_pfn u64 u64 u64 int \<comment> \<open>virtual start, page frame, size, result\<close>

text \<open>
  Registration of the driver and its device files. A character device number is registered with the
  address of one of the three static tables of file operations.
\<close>

datatype fops_ref = Ref_user_fops | Ref_h2c_fops | Ref_c2h_fops

datatype reg_event =
    E_register_driver int
  | E_unregister_driver
  | E_register_chrdev string fops_ref int \<comment> \<open>name, operations, result\<close>
  | E_unregister_chrdev int string
  | E_class_create u64
  | E_class_destroy u64
  | E_device_create int int string u64 \<comment> \<open>major, minor, name, device\<close>
  | E_device_destroy int int

datatype event =
    Mem mem_event
  | Dma dma_event
  | Io io_event
  | Pci pci_event
  | Reg reg_event

section \<open>The world\<close>

record world =
  sgms :: "u64 \<rightharpoonup> sg_mapping_t"
  page_arrs :: "u64 \<rightharpoonup> u64 list"
  sgl_arrs :: "u64 \<rightharpoonup> scatterlist list"
  desc_arrs :: "u64 \<rightharpoonup> xdma_desc list"
  data_bufs :: "u64 \<rightharpoonup> u8 list"
  trace :: "event list"
  xpcie_dev :: u64
  bar :: "u64 list"
  engine_regs_h2c :: u64
  engine_regs_c2h :: u64
  engine_sgdma_regs :: u64
  sgdma_common_regs :: u64
  major_user :: int
  major_h2c :: int
  major_c2h :: int
  xpcie_class :: u64
  xpcie_class_user :: u64
  xpcie_class_h2c :: u64
  xpcie_class_c2h :: u64

section \<open>The kernel interface\<close>

text \<open>
  The flags of virtual memory areas are constants of the kernel; \<open>VM_RESERVED\<close> is missing in newer ones.
  \<open>k_dma_target\<close> is used by specifications only: the page and the offset in it that the device
  reaches at a bus address of the mapping which \<open>pci_map_sg\<close> has made for the same arguments.
\<close>

record kapi =
  cpu_to_le32 :: "u32 \<Rightarrow> u32"
  le32_to_cpu :: "u32 \<Rightarrow> u32"
  sizeof_scatterlist :: u64
  k_kcalloc :: "world \<Rightarrow> u64 \<Rightarrow> u64 \<Rightarrow> u64"
  k_sg_init_table :: "scatterlist list \<Rightarrow> nat \<Rightarrow> scatterlist list"
  k_sg_set_page :: "scatterlist \<Rightarrow> u64 \<Rightarrow> u32 \<Rightarrow> u32 \<Rightarrow> scatterlist"
  k_get_user_pages_fast :: "world \<Rightarrow> u64 \<Rightarrow> int \<Rightarrow> bool \<Rightarrow> int \<times> u64 list"
  k_vmalloc_to_page :: "u64 \<Rightarrow> u64"
  k_PageHighMem :: "u64 \<Rightarrow> bool"
  k_pci_map_sg :: "world \<Rightarrow> u64 \<Rightarrow> scatterlist list \<Rightarrow> dma_dir \<Rightarrow> (u64 \<times> u32) list"
  k_dma_target :: "world \<Rightarrow> u64 \<Rightarrow> scatterlist list \<Rightarrow> dma_dir \<Rightarrow> u64 \<Rightarrow> u64 \<times> nat"
  k_pci_alloc_consistent :: "world \<Rightarrow> u64 \<Rightarrow> u64 \<Rightarrow> u64 \<times> u64"
  k_coherent_desc :: "world \<Rightarrow> nat \<Rightarrow> xdma_desc"
  k_coherent_byte :: "world \<Rightarrow> nat \<Rightarrow> u8"
  k_ioread32 :: "world \<Rightarrow> u64 \<Rightarrow> u32"
  k_pci_resource_start :: "u64 \<Rightarrow> int \<Rightarrow> u64"
  k_pci_resource_end :: "u64 \<Rightarrow> int \<Rightarrow> u64"
  k_pci_resource_len :: "u64 \<Rightarrow> int \<Rightarrow> u64"
  k_pci_iomap :: "world \<Rightarrow> u64 \<Rightarrow> int \<Rightarrow> u64 \<Rightarrow> u64"
  k_pci_request_regions :: "world \<Rightarrow> u64 \<Rightarrow> int"
  k_pci_enable_device :: "world \<Rightarrow> u64 \<Rightarrow> int"
  k_pci_set_dma_mask :: "world \<Rightarrow> u64 \<Rightarrow> nat \<Rightarrow> int"
  k_pgprot_noncached :: "u64 \<Rightarrow> u64"
  VM_IO :: u64
  VM_DONTEXPAND :: u64
  VM_DONTDUMP :: u64
  VM_RESERVED :: "u64 option"
  k_io_remap_pfn_range :: "world \<Rightarrow> u64 \<Rightarrow> u64 \<Rightarrow> u64 \<Rightarrow> int"
  k_pci_register_driver :: "world \<Rightarrow> int"
  k_register_chrdev :: "world \<Rightarrow> string \<Rightarrow> int"
  k_class_create :: "world \<Rightarrow> u64"
  k_IS_ERR :: "u64 \<Rightarrow> bool"
  k_device_create :: "world \<Rightarrow> int \<Rightarrow> int \<Rightarrow> string \<Rightarrow> u64"

text \<open>The flags the header puts together for a mapping of device memory.\<close>

definition VMEM_FLAGS :: "kapi \<Rightarrow> u64" where
  "VMEM_FLAGS K = (case VM_RESERVED K of
       None \<Rightarrow> VM_IO K OR VM_DONTEXPAND K OR VM_DONTDUMP K
     | Some reserved \<Rightarrow> VM_IO K OR reserved)"

section \<open>Access to the heap\<close>

definition logged :: "world \<Rightarrow> event list \<Rightarrow> world" where
  "logged w es = w\<lparr>trace := trace w @ es\<rparr>"

definition emit :: "event \<Rightarrow> (world, unit) prog" where
  "emit e = modify (\<lambda>w. logged w [e])"

definition sgm_get :: "u64 \<Rightarrow> (world, sg_mapping_t) prog" where
  "sgm_get p w = (case sgms w p of None \<Rightarrow> Inl Bad_Pointer | Some s \<Rightarrow> Inr (s, w))"

definition sgm_upd :: "u64 \<Rightarrow> (sg_mapping_t \<Rightarrow> sg_mapping_t) \<Rightarrow> (world, unit) prog" where
  "sgm_upd p f w = (case sgms w p of None \<Rightarrow> Inl Bad_Pointer
     | Some s \<Rightarrow> Inr ((), w\<lparr>sgms := (sgms w)(p \<mapsto> f s)\<rparr>))"

text \<open>Running a step whose state is one array on the array a pointer points to.\<close>

definition at_pages :: "u64 \<Rightarrow> (u64 list, 'a) prog \<Rightarrow> (world, 'a) prog" where
  "at_pages p m w = (case page_arrs w p of None \<Rightarrow> Inl Bad_Pointer
     | Some xs \<Rightarrow> (case m xs of Inl c \<Rightarrow> Inl c
         | Inr (a, ys) \<Rightarrow> Inr (a, w\<lparr>page_arrs := (page_arrs w)(p \<mapsto> ys)\<rparr>)))"

definition at_sgl :: "u64 \<Rightarrow> (scatterlist list, 'a) prog \<Rightarrow> (world, 'a) prog" where
  "at_sgl p m w = (case sgl_arrs w p of None \<Rightarrow> Inl Bad_Pointer
     | Some xs \<Rightarrow> (case m xs of Inl c \<Rightarrow> Inl c
         | Inr (a, ys) \<Rightarrow> Inr (a, w\<lparr>sgl_arrs := (sgl_arrs w)(p \<mapsto> ys)\<rparr>)))"

definition at_descs :: "u64 \<Rightarrow> (xdma_desc list, 'a) prog \<Rightarrow> (world, 'a) prog" where
  "at_descs p m w = (case desc_arrs w p of None \<Rightarrow> Inl Bad_Pointer
     | Some xs \<Rightarrow> (case m xs of Inl c \<Rightarrow> Inl c
         | Inr (a, ys) \<Rightarrow> Inr (a, w\<lparr>desc_arrs := (desc_arrs w)(p \<mapsto> ys)\<rparr>)))"

text \<open>The world with \<open>ds\<close> as the descriptor array at \<open>p\<close>.\<close>

definition put_descs :: "world \<Rightarrow> u64 \<Rightarrow> xdma_desc list \<Rightarrow> world" where
  "put_descs w p ds = w\<lparr>desc_arrs := (desc_arrs w)(p \<mapsto> ds)\<rparr>"

definition read_pages :: "u64 \<Rightarrow> (world, u64 list) prog" where
  "read_pages p = at_pages p (get_state id)"

definition read_sgl :: "u64 \<Rightarrow> (world, scatterlist list) prog" where
  "read_sgl p = at_sgl p (get_state id)"

lemma logged_logged [simp]: "logged (logged w xs) ys = logged w (xs @ ys)"
  by (simp add: logged_def)

lemma logged_Nil [simp]: "logged w [] = w"
  by (simp add: logged_def)

lemma logged_sel [simp]:
  "sgms (logged w es) = sgms w" "page_arrs (logged w es) = page_arrs w"
  "sgl_arrs (logged w es) = sgl_arrs w" "desc_arrs (logged w es) = desc_arrs w"
  "data_bufs (logged w es) = data_bufs w" "trace (logged w es) = trace w @ es"
  "xpcie_dev (logged w es) = xpcie_dev w" "bar (logged w es) = bar w"
  "engine_regs_h2c (logged w es) = engine_regs_h2c w"
  "engine_regs_c2h (logged w es) = engine_regs_c2h w"
  "engine_sgdma_regs (logged w es) = engine_sgdma_regs w"
  "sgdma_common_regs (logged w es) = sgdma_common_regs w"
  by (simp_all add: logged_def)

lemma runs_emit [simp]: "runs (emit e) w Q = Q () (logged w [e])"
  by (simp add: emit_def)

lemma runs_sgm_get [simp]: "runs (sgm_get p) w Q \<longleftrightarrow> (\<exists>s. sgms w p = Some s \<and> Q s w)"
  by (auto simp: runs_def sgm_get_def split: option.splits)

lemma runs_sgm_upd [simp]: "runs (sgm_upd p f) w Q \<longleftrightarrow>
    (\<exists>s. sgms w p = Some s \<and> Q () (w\<lparr>sgms := (sgms w)(p \<mapsto> f s)\<rparr>))"
  by (auto simp: runs_def sgm_upd_def split: option.splits)

lemma runs_at_pages [simp]: "runs (at_pages p m) w Q \<longleftrightarrow>
    (\<exists>xs. page_arrs w p = Some xs \<and>
      runs m xs (\<lambda>a ys. Q a (w\<lparr>page_arrs := (page_arrs w)(p \<mapsto> ys)\<rparr>)))"
  by (auto simp: runs_def at_pages_def split: option.splits sum.splits prod.splits)

lemma runs_at_sgl [simp]: "runs (at_sgl p m) w Q \<longleftrightarrow>
    (\<exists>xs. sgl_arrs w p = Some xs \<and>
      runs m xs (\<lambda>a ys. Q a (w\<lparr>sgl_arrs := (sgl_arrs w)(p \<mapsto> ys)\<rparr>)))"
  by (auto simp: runs_def at_sgl_def split: option.splits sum.splits prod.splits)

lemma runs_at_descs [simp]: "runs (at_descs p m) w Q \<longleftrightarrow>
    (\<exists>xs. desc_arrs w p = Some xs \<and> runs m xs (\<lambda>a ys. Q a (put_descs w p ys)))"
  by (auto simp: runs_def at_descs_def put_descs_def split: option.splits sum.splits prod.splits)

lemma put_descs_sel [simp]:
  "sgms (put_descs w p ds) = sgms w" "page_arrs (put_descs w p ds) = page_arrs w"
  "sgl_arrs (put_descs w p ds) = sgl_arrs w" "desc_arrs (put_descs w p ds) p = Some ds"
  "data_bufs (put_descs w p ds) = data_bufs w" "trace (put_descs w p ds) = trace w"
  "xpcie_dev (put_descs w p ds) = xpcie_dev w" "bar (put_descs w p ds) = bar w"
  "engine_regs_h2c (put_descs w p ds) = engine_regs_h2c w"
  "engine_sgdma_regs (put_descs w p ds) = engine_sgdma_regs w"
  by (simp_all add: put_descs_def)

lemma put_descs_put [simp]: "put_descs (put_descs w p ds) p ds' = put_descs w p ds'"
  by (simp add: put_descs_def)

lemma put_descs_same: "desc_arrs w p = Some ds \<Longrightarrow> put_descs w p ds = w"
  by (cases w) (simp add: put_descs_def map_upd_triv)

lemma logged_put_descs [simp]: "logged (put_descs w p ds) es = put_descs (logged w es) p ds"
  by (simp add: put_descs_def logged_def)

lemma runs_read_pages [simp]:
  "runs (read_pages p) w Q \<longleftrightarrow> (\<exists>xs. page_arrs w p = Some xs \<and> Q xs w)"
  by (auto simp: read_pages_def map_upd_triv)

lemma runs_read_sgl [simp]:
  "runs (read_sgl p) w Q \<longleftrightarrow> (\<exists>xs. sgl_arrs w p = Some xs \<and> Q xs w)"
  by (auto simp: read_sgl_def map_upd_triv)

section \<open>Allocation\<close>

text \<open>Pointers that point to a live heap object.\<close>

definition live :: "world \<Rightarrow> u64 \<Rightarrow> bool" where
  "live w p \<longleftrightarrow> sgms w p \<noteq> None \<or> page_arrs w p \<noteq> None \<or> sgl_arrs w p \<noteq> None"

definition kcalloc :: "kapi \<Rightarrow> u64 \<Rightarrow> u64 \<Rightarrow> (world, u64) prog" where
  "kcalloc K n sz w =
     (let p = k_kcalloc K w n sz in Inr (p, logged w [Mem (E_kcalloc n sz p)]))"

text \<open>
  The three kinds of object the driver allocates. On success the pointer points to zeroed
  memory; a null pointer is a failed allocation.
\<close>

definition kcalloc_sgm :: "kapi \<Rightarrow> (world, u64) prog" where
  "kcalloc_sgm K = mbind (kcalloc K 1 24) (\<lambda>p.
     mthen (modify (\<lambda>w. if p = 0 then w else w\<lparr>sgms := (sgms w)(p \<mapsto> zero_sgm)\<rparr>)) (ret p))"

definition kcalloc_pages :: "kapi \<Rightarrow> u64 \<Rightarrow> (world, u64) prog" where
  "kcalloc_pages K n = mbind (kcalloc K n 8) (\<lambda>p.
     mthen (modify (\<lambda>w. if p = 0 then w
       else w\<lparr>page_arrs := (page_arrs w)(p \<mapsto> replicate (unat n) 0)\<rparr>)) (ret p))"

definition kcalloc_sgl :: "kapi \<Rightarrow> u64 \<Rightarrow> (world, u64) prog" where
  "kcalloc_sgl K n = mbind (kcalloc K n (sizeof_scatterlist K)) (\<lambda>p.
     mthen (modify (\<lambda>w. if p = 0 then w
       else w\<lparr>sgl_arrs := (sgl_arrs w)(p \<mapsto> replicate (unat n) zero_sg)\<rparr>)) (ret p))"

text \<open>Freeing a null pointer does nothing; freeing what is not live is an error.\<close>

definition kfree :: "u64 \<Rightarrow> (world, unit) prog" where
  "kfree p w =
     (if p = 0 then Inr ((), logged w [Mem (E_kfree p)])
      else if live w p then
        Inr ((), logged (w\<lparr>sgms := (sgms w)(p := None), page_arrs := (page_arrs w)(p := None),
          sgl_arrs := (sgl_arrs w)(p := None)\<rparr>) [Mem (E_kfree p)])
      else Inl Bad_Pointer)"

lemma live_logged [simp]: "live (logged w es) p = live w p"
  by (simp add: live_def)

lemma runs_kcalloc [simp]: "runs (kcalloc K n sz) w Q =
    Q (k_kcalloc K w n sz) (logged w [Mem (E_kcalloc n sz (k_kcalloc K w n sz))])"
  by (simp add: runs_def kcalloc_def Let_def)

lemma runs_kfree [simp]: "p \<noteq> 0 \<Longrightarrow> runs (kfree p) w Q \<longleftrightarrow> live w p \<and>
    Q () (logged (w\<lparr>sgms := (sgms w)(p := None), page_arrs := (page_arrs w)(p := None),
          sgl_arrs := (sgl_arrs w)(p := None)\<rparr>) [Mem (E_kfree p)])"
  by (simp add: runs_def kfree_def)

section \<open>Error numbers and page arithmetic\<close>

definition ENOMEM :: int where
  "ENOMEM = 12"

definition EINVAL :: int where
  "EINVAL = 22"

definition EAGAIN :: int where
  "EAGAIN = 11"

definition offset_in_page :: "u64 \<Rightarrow> u32" where
  "offset_in_page a = ucast (a AND NOT PAGE_MASK)"

definition page_frame :: "u64 \<Rightarrow> u64" where
  "page_frame a = drop_bit PAGE_SHIFT (a AND PAGE_MASK)"

lemma unat_PAGE_SIZE [simp]: "unat PAGE_SIZE = 4096"
  by (simp add: PAGE_SIZE_def)

lemma PAGE_SIZE_le_iff [simp]: "PAGE_SIZE \<le> c \<longleftrightarrow> 4096 \<le> unat c"
  by (simp add: word_le_nat_alt)

lemma PAGE_SIZE_less_iff [simp]: "PAGE_SIZE < c \<longleftrightarrow> 4096 < unat c" "c < PAGE_SIZE \<longleftrightarrow> unat c < 4096"
  by (simp_all add: word_less_nat_alt)

lemma page_mask_mask: "PAGE_MASK = NOT (mask 12)"
  by (simp add: PAGE_MASK_def PAGE_SIZE_def mask_eq_exp_minus_1)

lemma unat_page_frame: "unat (page_frame a) = unat a div 4096"
proof -
  have "page_frame a = drop_bit 12 a"
    unfolding page_frame_def page_mask_mask PAGE_SHIFT_def
    by (rule bit_word_eqI) (auto simp: bit_simps dest: bit_imp_le_length)
  then have "unat (page_frame a) = unat (drop_bit 12 a)"
    by simp
  also have "\<dots> = unat a div 4096"
    by (subst unat_drop_bit_eq) (simp add: drop_bit_eq_div)
  finally show ?thesis .
qed

lemma unat_offset_in_page: "unat (offset_in_page a) = unat a mod 4096"
proof -
  have "offset_in_page a = ucast (take_bit 12 a)"
    by (simp add: offset_in_page_def page_mask_mask take_bit_eq_mask)
  then have "unat (offset_in_page a) = take_bit 12 (unat a)"
    by (simp add: unsigned_ucast_eq unsigned_take_bit_eq )
  then show ?thesis
    by (simp add: take_bit_eq_mod)
qed

section \<open>Documented behaviour of the kernel\<close>

text \<open>Byte-order conversion: the two directions undo each other, and zero stays zero.\<close>

definition byte_order_ok :: "kapi \<Rightarrow> bool" where
  "byte_order_ok K \<longleftrightarrow> (\<forall>x. le32_to_cpu K (cpu_to_le32 K x) = x) \<and> le32_to_cpu K 0 = 0"

text \<open>An allocation fails or returns memory that is not in use.\<close>

definition kcalloc_ok :: "kapi \<Rightarrow> bool" where
  "kcalloc_ok K \<longleftrightarrow> (\<forall>w n s. k_kcalloc K w n s \<noteq> 0 \<longrightarrow> \<not> live w (k_kcalloc K w n s))"

text \<open>\<open>sg_set_page\<close> sets page, length and offset; \<open>sg_init_table\<close> works in place.\<close>

definition sg_api_ok :: "kapi \<Rightarrow> bool" where
  "sg_api_ok K \<longleftrightarrow>
     (\<forall>e pg len off. page_link (k_sg_set_page K e pg len off) = pg
        \<and> sg_len (k_sg_set_page K e pg len off) = len
        \<and> offset (k_sg_set_page K e pg len off) = off)
     \<and> (\<forall>xs n. length (k_sg_init_table K xs n) = length xs)"

text \<open>
  \<open>get_user_pages_fast\<close> returns the number of pages it pinned, which may be fewer than
  requested, or a negative error number, and stores exactly the pages it pinned.
\<close>

definition gup_ok :: "kapi \<Rightarrow> bool" where
  "gup_ok K \<longleftrightarrow> (\<forall>w a n wr rc ps. k_get_user_pages_fast K w a n wr = (rc, ps) \<longrightarrow>
     rc \<le> n \<and> length ps = nat rc)"

text \<open>
  \<open>pci_alloc_consistent\<close> fails or returns memory that is not in use, page aligned on the
  bus, as its size never asks for more.
\<close>

definition coherent_ok :: "kapi \<Rightarrow> bool" where
  "coherent_ok K \<longleftrightarrow> (\<forall>w dev sz virt bus. k_pci_alloc_consistent K w dev sz = (virt, bus) \<longrightarrow> virt \<noteq> 0 \<longrightarrow>
     desc_arrs w virt = None \<and> data_bufs w virt = None \<and> unat bus mod 4096 = 0)"

end
