(* ===== verification/Descriptor.thy ===== *)
theory Descriptor
  imports Kernel
begin

text \<open>
  The DMA descriptors of \<^verbatim>\<open>driver/xpcie.c\<close>: allocating a chained array of them, and
  the functions that fill in, link and mark a single descriptor. A descriptor is read back, as the
  device reads it, with \<open>rd\<close>.
\<close>

section \<open>Operations on one descriptor\<close>

definition xdma_desc_set ::
  "kapi \<Rightarrow> u64 \<Rightarrow> u64 \<Rightarrow> u32 \<Rightarrow> int \<Rightarrow> xdma_desc \<Rightarrow> xdma_desc" where
  "xdma_desc_set K rc_bus_addr ep_addr len to_dev d =
     (let d = d\<lparr>bytes := cpu_to_le32 K len\<rparr> in
      if to_dev \<noteq> 0 then
        d\<lparr>src_addr_lo := cpu_to_le32 K (ucast (PCI_DMA_L rc_bus_addr)),
          src_addr_hi := cpu_to_le32 K (ucast (PCI_DMA_H rc_bus_addr)),
          dst_addr_lo := cpu_to_le32 K (ucast (PCI_DMA_L ep_addr)),
          dst_addr_hi := cpu_to_le32 K (ucast (PCI_DMA_H ep_addr))\<rparr>
      else
        d\<lparr>src_addr_lo := cpu_to_le32 K (ucast (PCI_DMA_L ep_addr)),
          src_addr_hi := cpu_to_le32 K (ucast (PCI_DMA_H ep_addr)),
          dst_addr_lo := cpu_to_le32 K (ucast (PCI_DMA_L rc_bus_addr)),
          dst_addr_hi := cpu_to_le32 K (ucast (PCI_DMA_H rc_bus_addr))\<rparr>)"

text \<open>
  \<open>second\<close> says whether the pointer to the second descriptor is not null. The Boolean of the
  result is the condition of the \<open>WARN_ON\<close>.
\<close>

definition xdma_desc_link ::
  "kapi \<Rightarrow> bool \<Rightarrow> u64 \<Rightarrow> xdma_desc \<Rightarrow> xdma_desc \<times> bool" where
  "xdma_desc_link K second second_bus first =
     (let ctrl = le32_to_cpu K (control first) AND 0x0000f0ff;
          (first, warn) =
            (if second then
               let d = first\<lparr>next_lo := cpu_to_le32 K (ucast (PCI_DMA_L second_bus)),
                             next_hi := cpu_to_le32 K (ucast (PCI_DMA_H second_bus))\<rparr>
               in (d, next_hi d \<noteq> 0)
             else (first\<lparr>next_lo := 0, next_hi := 0\<rparr>, False));
          ctrl = ctrl OR DESC_MAGIC
      in (first\<lparr>control := cpu_to_le32 K ctrl\<rparr>, warn))"

definition merge_control :: "kapi \<Rightarrow> u32 \<Rightarrow> xdma_desc \<Rightarrow> xdma_desc" where
  "merge_control K control_field first =
     (let ctrl = le32_to_cpu K (control first) AND NOT LS_BYTE_MASK
      in first\<lparr>control := cpu_to_le32 K (ctrl OR control_field)\<rparr>)"

definition xdma_desc_control :: "kapi \<Rightarrow> u32 \<Rightarrow> xdma_desc \<Rightarrow> crash + xdma_desc" where
  "xdma_desc_control K control_field first =
     (if control_field AND NOT LS_BYTE_MASK \<noteq> 0 then Inl Bug_On
      else Inr (merge_control K control_field first))"

text \<open>
  The number of extra adjacent descriptors that \<open>xdma_desc_adjacent\<close> stores: limited by
  \<open>MAX_EXTRA_ADJ\<close> and by the 4 KiB page the next descriptor lies in. The comparison with
  \<open>max_adj_4k\<close> is one of unsigned 32-bit values.
\<close>

definition max_adj_4k :: "kapi \<Rightarrow> xdma_desc \<Rightarrow> u32" where
  "max_adj_4k K d = (0x1000 - (le32_to_cpu K (next_lo d) AND 0xFFF)) div 32 - 1"

definition extra_adj_of :: "kapi \<Rightarrow> int \<Rightarrow> xdma_desc \<Rightarrow> int" where
  "extra_adj_of K next_adjacent d =
     (if next_adjacent > 0 then
        let extra_adj = next_adjacent - 1;
            extra_adj = (if extra_adj > MAX_EXTRA_ADJ then MAX_EXTRA_ADJ else extra_adj);
            extra_adj = (if word_of_int extra_adj > max_adj_4k K d then sint (max_adj_4k K d)
                         else extra_adj)
        in if extra_adj < 0 then 0 else extra_adj
      else 0)"

definition xdma_desc_adjacent :: "kapi \<Rightarrow> int \<Rightarrow> xdma_desc \<Rightarrow> xdma_desc" where
  "xdma_desc_adjacent K next_adjacent d =
     (let ctrl = le32_to_cpu K (control d) AND 0x0000f0ff;
          ctrl = ctrl OR (0xAD4B0000 OR push_bit 8 (word_of_int (extra_adj_of K next_adjacent d)))
      in d\<lparr>control := cpu_to_le32 K ctrl\<rparr>)"

section \<open>Allocating and freeing an array of descriptors\<close>

definition alloc_coherent_descs :: "kapi \<Rightarrow> u64 \<Rightarrow> int \<Rightarrow> (world, u64 \<times> u64) prog" where
  "alloc_coherent_descs K dev number w =
     (let sz = word_of_int number * sizeof_xdma_desc;
          (virt, bus) = k_pci_alloc_consistent K w dev sz;
          w1 = logged w [Dma (E_alloc_coherent dev sz virt bus)]
      in Inr ((virt, bus),
           if virt = 0 then w1
           else w1\<lparr>desc_arrs := (desc_arrs w1)(virt \<mapsto> map (k_coherent_desc K w) [0..<nat number])\<rparr>))"

definition free_coherent_descs :: "u64 \<Rightarrow> int \<Rightarrow> u64 \<Rightarrow> u64 \<Rightarrow> (world, unit) prog" where
  "free_coherent_descs dev number virt bus w =
     (if desc_arrs w virt = None then Inl Bad_Pointer
      else Inr ((), logged (w\<lparr>desc_arrs := (desc_arrs w)(virt := None)\<rparr>)
        [Dma (E_free_coherent dev (word_of_int number * sizeof_xdma_desc) virt bus)]))"

text \<open>
  The body of the loop that chains the descriptors; its variables are the bus address of the
  current descriptor and the number of descriptors after it.
\<close>

definition chain_step :: "kapi \<Rightarrow> nat \<Rightarrow> u64 \<times> int \<Rightarrow> (xdma_desc list, u64 \<times> int) prog" where
  "chain_step K i = (\<lambda>(bus, adj).
     let bus = bus + sizeof_xdma_desc;
         extra_adj = (if adj > 0 then (if adj - 1 > MAX_EXTRA_ADJ then MAX_EXTRA_ADJ else adj - 1)
                      else 0);
         adj = (if adj > 0 then adj - 1 else adj);
         temp_control = DESC_MAGIC OR push_bit 8 (word_of_int extra_adj)
     in mthen (arr_upd i (\<lambda>d. d\<lparr>next_lo := cpu_to_le32 K (ucast (PCI_DMA_L bus)),
          next_hi := cpu_to_le32 K (ucast (PCI_DMA_H bus)),
          bytes := cpu_to_le32 K 0, control := cpu_to_le32 K temp_control\<rparr>))
        (ret (bus, adj)))"

definition chain_last :: "kapi \<Rightarrow> xdma_desc \<Rightarrow> xdma_desc" where
  "chain_last K d = d\<lparr>next_lo := cpu_to_le32 K 0, next_hi := cpu_to_le32 K 0,
     bytes := cpu_to_le32 K 0, control := cpu_to_le32 K DESC_MAGIC\<rparr>"

definition chain_descs :: "kapi \<Rightarrow> int \<Rightarrow> u64 \<Rightarrow> (xdma_desc list, unit) prog" where
  "chain_descs K number bus =
     mbind (foldM (chain_step K) [0..<nat (number - 1)] (bus, number - 1)) (\<lambda>_.
       arr_upd (nat (number - 1)) (chain_last K))"

text \<open>
  The result is the virtual and the bus address of the first descriptor and, if the caller asks
  for it (a non-null \<open>desc_last_p\<close>), the virtual address of the last one. The virtual address
  is 0 when the allocation failed.
\<close>

definition xdma_desc_alloc ::
  "kapi \<Rightarrow> u64 \<Rightarrow> int \<Rightarrow> bool \<Rightarrow> (world, u64 \<times> u64 \<times> u64 option) prog" where
  "xdma_desc_alloc K dev number want_last =
     mthen (bug_on (number < 1))
     (mbind (alloc_coherent_descs K dev number) (\<lambda>(virt, bus).
      if virt = 0 then ret (0, bus, None)
      else mthen (at_descs virt (chain_descs K number bus))
        (ret (virt, bus, if want_last then Some (virt + word_of_int (number - 1) * sizeof_xdma_desc)
                         else None))))"

definition xdma_desc_free :: "u64 \<Rightarrow> int \<Rightarrow> u64 \<Rightarrow> u64 \<Rightarrow> (world, unit) prog" where
  "xdma_desc_free dev number virt bus =
     mthen (bug_on (virt = 0))
     (mthen (bug_on (number < 0))
     (free_coherent_descs dev number virt bus))"

section \<open>Reading a descriptor back\<close>

definition rd :: "kapi \<Rightarrow> u32 \<Rightarrow> u32" where
  "rd K x = le32_to_cpu K x"

definition src_addr :: "kapi \<Rightarrow> xdma_desc \<Rightarrow> u64" where
  "src_addr K d = dma_join (rd K (src_addr_hi d)) (rd K (src_addr_lo d))"

definition dst_addr :: "kapi \<Rightarrow> xdma_desc \<Rightarrow> u64" where
  "dst_addr K d = dma_join (rd K (dst_addr_hi d)) (rd K (dst_addr_lo d))"

definition next_addr :: "kapi \<Rightarrow> xdma_desc \<Rightarrow> u64" where
  "next_addr K d = dma_join (rd K (next_hi d)) (rd K (next_lo d))"

definition desc_len :: "kapi \<Rightarrow> xdma_desc \<Rightarrow> nat" where
  "desc_len K d = unat (rd K (bytes d))"

definition desc_magic :: "kapi \<Rightarrow> xdma_desc \<Rightarrow> bool" where
  "desc_magic K d \<longleftrightarrow> drop_bit 16 (rd K (control d)) = 0xAD4B"

definition adj_field :: "kapi \<Rightarrow> xdma_desc \<Rightarrow> nat" where
  "adj_field K d = unat (take_bit 4 (drop_bit 8 (rd K (control d))))"

definition ctl_byte :: "kapi \<Rightarrow> xdma_desc \<Rightarrow> u32" where
  "ctl_byte K d = rd K (control d) AND LS_BYTE_MASK"

lemmas desc_reads = src_addr_def dst_addr_def next_addr_def desc_len_def

lemma rd_conv [simp]: "byte_order_ok K \<Longrightarrow> rd K (cpu_to_le32 K x) = x"
  by (simp add: rd_def byte_order_ok_def)

lemma rd_0 [simp]: "byte_order_ok K \<Longrightarrow> rd K 0 = 0"
  by (simp add: rd_def byte_order_ok_def)

lemma dma_join_0 [simp]: "dma_join 0 0 = 0"
  by (simp add: dma_join_def)

section \<open>The control word\<close>

lemma push_adj_bits: 
  assumes "0 \<le> e" "e \<le> 15"
  shows "drop_bit 16 (push_bit 8 (word_of_int e :: u32)) = 0"
    and "unat (take_bit 4 (drop_bit 8 (push_bit 8 (word_of_int e :: u32)))) = nat e"
    and "push_bit 8 (word_of_int e :: u32) AND LS_BYTE_MASK = 0"
proof -
  have "e = 0 \<or> e = 1 \<or> e = 2 \<or> e = 3 \<or> e = 4 \<or> e = 5 \<or> e = 6 \<or> e = 7 \<or> e = 8 \<or> e = 9
     \<or> e = 10 \<or> e = 11 \<or> e = 12 \<or> e = 13 \<or> e = 14 \<or> e = 15"
    using assms by presburger
  then show "drop_bit 16 (push_bit 8 (word_of_int e :: u32)) = 0"
    and "unat (take_bit 4 (drop_bit 8 (push_bit 8 (word_of_int e :: u32)))) = nat e"
    and "push_bit 8 (word_of_int e :: u32) AND LS_BYTE_MASK = 0"
    by (auto simp: LS_BYTE_MASK_def)
qed

lemma keep_bits:
  "drop_bit 16 (x AND 0x0000f0ff :: u32) = 0"
  "take_bit 4 (drop_bit 8 (x AND 0x0000f0ff :: u32)) = 0"
  "(x AND 0x0000f0ff) AND LS_BYTE_MASK = x AND LS_BYTE_MASK"
  by (simp_all add: LS_BYTE_MASK_def and.assoc)

lemma magic_bits:
  "drop_bit 16 DESC_MAGIC = 0xAD4B" "take_bit 4 (drop_bit 8 DESC_MAGIC) = 0"
  "DESC_MAGIC AND LS_BYTE_MASK = 0"
  by (simp_all add: DESC_MAGIC_def LS_BYTE_MASK_def)

lemma unat_max_adj_4k: 
  "unat (max_adj_4k K d) = 
   (let a = unat (rd K (next_lo d) AND 0xFFF) in if a \<le> 4064 then (4096 - a) div 32 - 1 else 2 ^ 32 - 1)"
proof -
  let ?x = "rd K (next_lo d) AND 0xFFF"
  have m: "(0xFFF :: u32) = mask 12" by (simp add: mask_eq_exp_minus_1)
  have lt: "unat ?x < 4096"
    using take_bit_nat_less_exp [of 12 "unat (rd K (next_lo d))"]
    unfolding m by (simp add: unsigned_take_bit_eq flip: take_bit_eq_mask)
  have "unat (0x1000 - ?x) = 4096 - unat ?x"
    using lt by (subst unat_sub) (simp_all add: word_le_nat_alt)
  then have q: "unat ((0x1000 - ?x) div 32) = (4096 - unat ?x) div 32"
    by (simp add: unat_div)
  show ?thesis
  proof (cases "unat ?x \<le> 4064")
    case True
    then have "1 \<le> (4096 - unat ?x) div 32" by linarith
    then have "unat ((0x1000 - ?x) div 32 - 1) = (4096 - unat ?x) div 32 - 1"
      using q by (subst unat_sub) (simp_all add: word_le_nat_alt)
    with True show ?thesis by (simp add: max_adj_4k_def rd_def Let_def)
  next
    case False
    then have "(4096 - unat ?x) div 32 = 0" by simp
    then have z: "(0x1000 - ?x) div 32 = 0" using q by (metis unat_0_iff)
    have m1: "unat (- 1 :: u32) = 2 ^ 32 - 1"
      by (simp add: unsigned_minus_1_eq_mask mask_eq_exp_minus_1)
    show ?thesis using False z m1 by (simp add: max_adj_4k_def rd_def Let_def)
  qed
qed

lemma extra_adj_of_eq:
  assumes "0 < n"
  shows "extra_adj_of K n d = min (min (n - 1) 15) (int (unat (max_adj_4k K d)))"
proof -
  define e where "e = min (n - 1) 15"
  have e: "0 \<le> e" "e \<le> 15" using assms by (auto simp: e_def)
  have w: "word_of_int e > max_adj_4k K d \<longleftrightarrow> unat (max_adj_4k K d) < nat e"
  proof -
    obtain k where k: "e = int k" "k \<le> 15" using e nonneg_int_cases by fastforce
    then have "unat (word_of_int e :: u32) = k"
      by (simp add: unsigned_of_nat take_bit_nat_eq_self)
    then show ?thesis using k by (simp add: word_less_nat_alt)
  qed
  have unf: "extra_adj_of K n d = (if word_of_int e > max_adj_4k K d then
      (if sint (max_adj_4k K d) < 0 then 0 else sint (max_adj_4k K d)) else e)"
    using assms by (auto simp: extra_adj_of_def MAX_EXTRA_ADJ_def Let_def e_def min_def)
  have "extra_adj_of K n d = min e (int (unat (max_adj_4k K d)))"
  proof (cases "unat (max_adj_4k K d) < nat e")
    case True
    then have "sint (max_adj_4k K d) = int (unat (max_adj_4k K d))"
      using e by (intro sint_small) simp
    moreover have "int (unat (max_adj_4k K d)) < e" using True by linarith
    ultimately show ?thesis unfolding unf w using True e by simp
  next
    case False
    then have "e \<le> int (unat (max_adj_4k K d))" by linarith
    then show ?thesis unfolding unf w using False by simp
  qed
  then show ?thesis by (simp only: e_def)
qed

lemma extra_adj_of_range: "0 \<le> extra_adj_of K n d \<and> extra_adj_of K n d \<le> 15"
proof (cases "0 < n")
  case True
  then show ?thesis unfolding extra_adj_of_eq [OF True] by (auto simp: min_def)
next
  case False
  then show ?thesis by (simp add: extra_adj_of_def)
qed

section \<open>What the operations on one descriptor do\<close>

lemma xdma_desc_set_reads:
  assumes "byte_order_ok K"
  shows "desc_len K (xdma_desc_set K rc ep len to_dev d) = unat len"
    and "src_addr K (xdma_desc_set K rc ep len to_dev d) = (if to_dev \<noteq> 0 then rc else ep)"
    and "dst_addr K (xdma_desc_set K rc ep len to_dev d) = (if to_dev \<noteq> 0 then ep else rc)"
    and "next_addr K (xdma_desc_set K rc ep len to_dev d) = next_addr K d"
    and "control (xdma_desc_set K rc ep len to_dev d) = control d"
  using assms by (simp_all add: xdma_desc_set_def desc_reads Let_def)

lemma xdma_desc_link_control:
  assumes "byte_order_ok K"
  shows "desc_magic K (fst (xdma_desc_link K second bus d))"
    and "adj_field K (fst (xdma_desc_link K second bus d)) = 0"
    and "ctl_byte K (fst (xdma_desc_link K second bus d)) = ctl_byte K d"
  using assms
  by (auto simp: xdma_desc_link_def desc_magic_def adj_field_def ctl_byte_def Let_def
      keep_bits magic_bits bit.conj_disj_distrib2 simp del: drop_bit_and take_bit_and
      simp flip: rd_def)

lemma xdma_desc_link_next:
  assumes "byte_order_ok K"
  shows "next_addr K (fst (xdma_desc_link K second bus d)) = (if second then bus else 0)"
    and "snd (xdma_desc_link K second bus d)
      \<longleftrightarrow> second \<and> cpu_to_le32 K (ucast (PCI_DMA_H bus)) \<noteq> 0"
  using assms by (auto simp: xdma_desc_link_def desc_reads Let_def)

lemma keep_high_bits:
  "drop_bit 16 (x AND NOT LS_BYTE_MASK :: u32) = drop_bit 16 x"
  "take_bit 4 (drop_bit 8 (x AND NOT LS_BYTE_MASK :: u32)) = take_bit 4 (drop_bit 8 x)"
  "(x AND NOT LS_BYTE_MASK) AND LS_BYTE_MASK = 0"
proof -
  have m: "LS_BYTE_MASK = mask 8" by (simp add: LS_BYTE_MASK_def mask_eq_exp_minus_1)
  show "drop_bit 16 (x AND NOT LS_BYTE_MASK :: u32) = drop_bit 16 x"
    unfolding m by (rule bit_word_eqI) (auto simp: bit_simps dest: bit_imp_le_length)
  show "take_bit 4 (drop_bit 8 (x AND NOT LS_BYTE_MASK :: u32)) = take_bit 4 (drop_bit 8 x)"
    unfolding m by (rule bit_word_eqI) (auto simp: bit_simps dest: bit_imp_le_length)
  show "(x AND NOT LS_BYTE_MASK) AND LS_BYTE_MASK = 0"
    by (rule bit_word_eqI) (auto simp: bit_simps)
qed

lemma low_field_bits:
  assumes "f AND NOT LS_BYTE_MASK = (0 :: u32)"
  shows "drop_bit 16 f = 0" and "take_bit 4 (drop_bit 8 f) = 0" and "f AND LS_BYTE_MASK = f"
proof -
  have f: "f = f AND LS_BYTE_MASK"
  proof -
    have "f = (f AND LS_BYTE_MASK) OR (f AND NOT LS_BYTE_MASK)"
      by (rule bit_word_eqI) (auto simp: bit_simps)
    then show ?thesis using assms by simp
  qed
  then show "f AND LS_BYTE_MASK = f" by simp
  have m: "LS_BYTE_MASK = mask 8" by (simp add: LS_BYTE_MASK_def mask_eq_exp_minus_1)
  show "drop_bit 16 f = 0"
    by (subst f, unfold m, rule bit_word_eqI) (auto simp: bit_simps)
  show "take_bit 4 (drop_bit 8 f) = 0"
    by (subst f, unfold m, rule bit_word_eqI) (auto simp: bit_simps)
qed

lemma merge_control_reads:
  assumes "byte_order_ok K" and "f AND NOT LS_BYTE_MASK = 0"
  shows "desc_magic K (merge_control K f d) = desc_magic K d"
    and "adj_field K (merge_control K f d) = adj_field K d"
    and "ctl_byte K (merge_control K f d) = f"
  using assms low_field_bits [OF assms(2)]
  by (auto simp: merge_control_def desc_magic_def adj_field_def ctl_byte_def Let_def
      keep_high_bits bit.conj_disj_distrib2 simp del: drop_bit_and take_bit_and simp flip: rd_def)

lemma xdma_desc_adjacent_reads:
  assumes "byte_order_ok K"
  shows "desc_magic K (xdma_desc_adjacent K n d)"
    and "adj_field K (xdma_desc_adjacent K n d) = nat (extra_adj_of K n d)"
    and "ctl_byte K (xdma_desc_adjacent K n d) = ctl_byte K d"
  using assms push_adj_bits [of "extra_adj_of K n d"] extra_adj_of_range [of K n d]
  by (auto simp: xdma_desc_adjacent_def desc_magic_def adj_field_def ctl_byte_def Let_def
      keep_bits magic_bits bit.conj_disj_distrib2 simp del: drop_bit_and take_bit_and
      simp flip: rd_def DESC_MAGIC_def)

section \<open>The bytes a descriptor moves\<close>

text \<open>
  A descriptor tells the device to copy \<open>desc_len\<close> bytes from consecutive source addresses to
  consecutive destination addresses; a list of descriptors is carried out in order.
\<close>

definition desc_copies :: "kapi \<Rightarrow> xdma_desc \<Rightarrow> (u64 \<times> u64) list" where
  "desc_copies K d = zip (span (src_addr K d) (desc_len K d)) (span (dst_addr K d) (desc_len K d))"

definition plan :: "kapi \<Rightarrow> xdma_desc list \<Rightarrow> (u64 \<times> u64) list" where
  "plan K ds = concat (map (desc_copies K) ds)"

lemma plan_simps [simp]:
  "plan K [] = []" "plan K (d # ds) = desc_copies K d @ plan K ds"
  "plan K (ds @ ds') = plan K ds @ plan K ds'"
  by (simp_all add: plan_def)

section \<open>Editing the control word leaves the copies alone\<close>

text \<open>
  The contract that the functions which link, mark and count descriptors share: they do not
  touch what a descriptor copies; those that only write the control word do not touch where the
  next descriptor is either.
\<close>

locale payload_editor =
  fixes ed :: "xdma_desc \<Rightarrow> xdma_desc"
  assumes keeps_bytes: "bytes (ed d) = bytes d"
    and keeps_src_lo: "src_addr_lo (ed d) = src_addr_lo d"
    and keeps_src_hi: "src_addr_hi (ed d) = src_addr_hi d"
    and keeps_dst_lo: "dst_addr_lo (ed d) = dst_addr_lo d"
    and keeps_dst_hi: "dst_addr_hi (ed d) = dst_addr_hi d"
begin

lemmas keeps = keeps_bytes keeps_src_lo keeps_src_hi keeps_dst_lo keeps_dst_hi

lemma copies: "desc_copies K (ed d) = desc_copies K d"
  by (simp add: desc_copies_def desc_reads keeps)

lemma len: "desc_len K (ed d) = desc_len K d"
  by (simp add: desc_reads keeps)

lemma plan_update:
  assumes "i < length ds"
  shows "plan K (ds[i := ed (ds ! i)]) = plan K ds"
proof -
  have "map (desc_copies K) (ds[i := ed (ds ! i)]) = map (desc_copies K) ds"
    using assms by (simp add: map_update copies list_update_same_conv)
  then show ?thesis by (simp add: plan_def)
qed

end

locale control_editor = payload_editor +
  assumes keeps_next_lo: "next_lo (ed d) = next_lo d"
    and keeps_next_hi: "next_hi (ed d) = next_hi d"
begin

lemma next_same: "next_addr K (ed d) = next_addr K d"
  by (simp add: desc_reads keeps_next_lo keeps_next_hi)

end

interpretation link: payload_editor "\<lambda>d. fst (xdma_desc_link K second bus d)" for K second bus
  by unfold_locales (auto simp: xdma_desc_link_def Let_def)

interpretation mark: control_editor "merge_control K f" for K f
  by unfold_locales (auto simp: merge_control_def Let_def)

interpretation adjacent: control_editor "xdma_desc_adjacent K n" for K n
  by unfold_locales (auto simp: xdma_desc_adjacent_def Let_def)

section \<open>The chain of a new array\<close>

definition chain_mid :: "kapi \<Rightarrow> u64 \<Rightarrow> nat \<Rightarrow> nat \<Rightarrow> xdma_desc \<Rightarrow> xdma_desc" where
  "chain_mid K bus k i d =
     d\<lparr>next_lo := cpu_to_le32 K (ucast (PCI_DMA_L (bus + of_nat (Suc i) * sizeof_xdma_desc))),
       next_hi := cpu_to_le32 K (ucast (PCI_DMA_H (bus + of_nat (Suc i) * sizeof_xdma_desc))),
       bytes := cpu_to_le32 K 0,
       control := cpu_to_le32 K (DESC_MAGIC OR push_bit 8 (word_of_int (min 15 (int (k - Suc i)))))\<rparr>"

definition chained :: "kapi \<Rightarrow> u64 \<Rightarrow> nat \<Rightarrow> xdma_desc list \<Rightarrow> xdma_desc list \<Rightarrow> bool" where
  "chained K bus k ds ds' \<longleftrightarrow> length ds' = Suc k \<and>
     (\<forall>i < k. ds' ! i = chain_mid K bus k i (ds ! i)) \<and> ds' ! k = chain_last K (ds ! k)"

lemma chain_descs_runs:
  assumes "length ds = Suc k"
  shows "runs (chain_descs K (int (Suc k)) bus) ds (\<lambda>_. chained K bus k ds)"
proof -
  let ?I = "\<lambda>i (b, adj) ds'. b = bus + of_nat i * sizeof_xdma_desc \<and> adj = int k - int i
     \<and> length ds' = Suc k \<and> (\<forall>j < i. ds' ! j = chain_mid K bus k j (ds ! j))
     \<and> (\<forall>j. i \<le> j \<longrightarrow> ds' ! j = ds ! j)"
  have step: "runs (chain_step K i a) ds' (?I (Suc i))" if "i < k" "?I i a ds'" for i a ds'
  proof -
    obtain b adj where a: "a = (b, adj)" by (cases a)
    have b: "b + sizeof_xdma_desc = bus + of_nat (Suc i) * sizeof_xdma_desc"
      and e: "(if adj > 0 then if adj - 1 > MAX_EXTRA_ADJ then MAX_EXTRA_ADJ else adj - 1 else 0)
         = min 15 (int (k - Suc i))" and adj: "(if adj > 0 then adj - 1 else adj) = int k - int (Suc i)"
      using that a by (auto simp: algebra_simps MAX_EXTRA_ADJ_def min_def)
    show ?thesis
      using that unfolding a chain_step_def prod.case Let_def b e adj
      by (auto simp: nth_list_update chain_mid_def less_Suc_eq)
  qed
  have "runs (foldM (chain_step K) [0..<k] (bus, int k)) ds (?I k)"
    by (rule runs_foldM_upt [where I = ?I]) (use step assms in auto)
  then show ?thesis
    unfolding chain_descs_def
    by (auto elim!: runs_weaken simp: chained_def nth_list_update)
qed

lemma chain_mid_reads:
  assumes "byte_order_ok K" and "i < k"
  shows "next_addr K (chain_mid K bus k i d) = bus + of_nat (Suc i) * sizeof_xdma_desc"
    and "desc_len K (chain_mid K bus k i d) = 0"
    and "desc_magic K (chain_mid K bus k i d)"
    and "adj_field K (chain_mid K bus k i d) = min 15 (k - Suc i)"
    and "ctl_byte K (chain_mid K bus k i d) = 0"
  using assms push_adj_bits [of "min 15 (int (k - Suc i))"]
  by (auto simp: chain_mid_def desc_reads desc_magic_def adj_field_def ctl_byte_def magic_bits
      bit.conj_disj_distrib2)

lemma chain_last_reads:
  assumes "byte_order_ok K"
  shows "next_addr K (chain_last K d) = 0" and "desc_len K (chain_last K d) = 0"
    and "desc_magic K (chain_last K d)" and "adj_field K (chain_last K d) = 0"
    and "ctl_byte K (chain_last K d) = 0"
  using assms
  by (auto simp: chain_last_def desc_reads desc_magic_def adj_field_def ctl_byte_def magic_bits)

lemma chained_reads:
  assumes K: "byte_order_ok K" and c: "chained K bus m raw ds" and k: "k \<le> m"
  shows "desc_magic K (ds ! k)" "desc_len K (ds ! k) = 0" "ctl_byte K (ds ! k) = 0"
    "next_addr K (ds ! k) = (if k < m then bus + of_nat (Suc k) * sizeof_xdma_desc else 0)"
    "adj_field K (ds ! k) = min 15 (m - Suc k)"
  using c k chain_mid_reads [OF K, of k m] chain_last_reads [OF K]
  by (cases "k = m"; simp add: chained_def)+

lemma xdma_desc_alloc_runs:
  assumes n: "0 < n" and al: "k_pci_alloc_consistent K w dev (word_of_int (int n) * sizeof_xdma_desc) = (virt, bus)"
    and v: "virt \<noteq> 0"
  shows "runs (xdma_desc_alloc K dev (int n) want_last) w (\<lambda>r w'.
    r = (virt, bus, if want_last then Some (virt + word_of_int (int n - 1) * sizeof_xdma_desc) else None)
    \<and> (\<exists>raw ds. chained K bus (n - 1) raw ds \<and> desc_arrs w' virt = Some ds))"
proof -
  have chain: "runs (chain_descs K (int n) bus) (map (k_coherent_desc K w) [0..<n])
      (\<lambda>_. chained K bus (n - 1) (map (k_coherent_desc K w) [0..<n]))"
    using chain_descs_runs [of "map (k_coherent_desc K w) [0..<n]" "n - 1" K bus] n by simp
  have "runs (alloc_coherent_descs K dev (int n)) w (\<lambda>r w'. r = (virt, bus)
      \<and> desc_arrs w' virt = Some (map (k_coherent_desc K w) [0..<n]))"
    using al v by (simp add: runs_def alloc_coherent_descs_def Let_def)
  then show ?thesis
    unfolding xdma_desc_alloc_def using n v
    by (auto elim!: runs_weaken intro!: runs_weaken [OF chain]) blast+
qed

end
