(* ===== verification/TransferBuild.thy ===== *)
theory TransferBuild
  imports Descriptor
begin

text \<open>
  Building the descriptors of a transfer from a mapped scatter list (\<open>transfer_build\<close>),
  terminating the list, storing the adjacency counts and dumping the result.
\<close>

section \<open>Building\<close>

text \<open>The local variables of the loop of \<open>transfer_build\<close>.\<close>

record build_vars =
  cont_addr :: u64
  addr :: u64
  cont_len :: u32
  cont_max_len :: u32
  ep_addr :: u64
  desc_idx :: nat

definition build_step ::
  "kapi \<Rightarrow> scatterlist list \<Rightarrow> int \<Rightarrow> int \<Rightarrow> int \<Rightarrow> int \<Rightarrow> nat \<Rightarrow> build_vars
    \<Rightarrow> (xdma_desc list, build_vars) prog" where
  "build_step K sg to_dev non_incr_addr force_new_desc from_user i v =
     mbind (arr_read sg (i + 1)) (\<lambda>e'.
     mbind (arr_read sg i) (\<lambda>e.
       let nxt = dma_address e';
           len = dma_length e;
           clen = cont_len v + len;
           new_desc = (if nxt \<noteq> addr v + ucast len then True
                       else ucast clen > XDMA_DESC_MAX_BYTES - PAGE_SIZE);
           new_desc = (if force_new_desc \<noteq> 0 \<and> from_user = 0 then True else new_desc)
       in if new_desc then
            mthen (arr_upd (desc_idx v) (xdma_desc_set K (cont_addr v) (ep_addr v) clen to_dev))
            (ret \<lparr>cont_addr = nxt, addr = nxt, cont_len = 0,
               cont_max_len = (if clen > cont_max_len v then clen else cont_max_len v),
               ep_addr = (if from_user \<noteq> 0
                          then (if non_incr_addr = 0 then ep_addr v + ucast clen else ep_addr v)
                          else ep_addr v + ucast clen),
               desc_idx = desc_idx v + 1\<rparr>)
          else ret (v\<lparr>addr := nxt, cont_len := clen\<rparr>)))"

definition build_descs ::
  "kapi \<Rightarrow> scatterlist list \<Rightarrow> int \<Rightarrow> u64 \<Rightarrow> int \<Rightarrow> int \<Rightarrow> int \<Rightarrow> int \<Rightarrow> (xdma_desc list, int) prog" where
  "build_descs K sg nents ep to_dev non_incr_addr force_new_desc from_user =
     mbind (arr_read sg 0) (\<lambda>e0.
     mbind (foldM (build_step K sg to_dev non_incr_addr force_new_desc from_user)
        [0..<nat (nents - 1)]
        \<lparr>cont_addr = dma_address e0, addr = dma_address e0, cont_len = 0, cont_max_len = 0,
          ep_addr = ep, desc_idx = 0\<rparr>) (\<lambda>v.
     mbind (arr_read sg (nat (nents - 1))) (\<lambda>e.
     mthen (bug_on (int (desc_idx v) > nents))
     (mthen (arr_upd (desc_idx v)
        (xdma_desc_set K (cont_addr v) (ep_addr v) (cont_len v + dma_length e) to_dev))
     (ret (int (desc_idx v)))))))"

definition transfer_build ::
  "kapi \<Rightarrow> xdma_transfer \<Rightarrow> u64 \<Rightarrow> int \<Rightarrow> int \<Rightarrow> int \<Rightarrow> int \<Rightarrow> (world, int) prog" where
  "transfer_build K transfer ep to_dev non_incr_addr force_new_desc from_user =
     mbind (sgm_get (sgm transfer)) (\<lambda>s.
     mbind (read_sgl (sgl s)) (\<lambda>l.
       at_descs (desc_virt transfer)
         (build_descs K l (sgl_nents transfer) ep to_dev non_incr_addr force_new_desc from_user)))"

section \<open>Terminating, counting, dumping\<close>

definition link_step :: "kapi \<Rightarrow> u64 \<Rightarrow> nat \<Rightarrow> bool \<Rightarrow> u64 \<Rightarrow> (world, unit) prog" where
  "link_step K virt i second second_bus =
     mbind (at_descs virt (mbind (get_state id) (\<lambda>ds. mbind (arr_read ds i) (\<lambda>d.
       mthen (arr_upd i (\<lambda>d. fst (xdma_desc_link K second second_bus d)))
       (ret (snd (xdma_desc_link K second second_bus d))))))) (\<lambda>warn.
     if warn then emit (Io E_warn_on) else ret ())"

definition control_step :: "kapi \<Rightarrow> nat \<Rightarrow> u32 \<Rightarrow> (xdma_desc list, unit) prog" where
  "control_step K i control_field =
     mbind (get_state id) (\<lambda>ds. mbind (arr_read ds i) (\<lambda>d.
     mbind (lift_result (xdma_desc_control K control_field d)) (\<lambda>d'.
     arr_upd i (\<lambda>_. d'))))"

definition transfer_terminate :: "kapi \<Rightarrow> xdma_transfer \<Rightarrow> int \<Rightarrow> (world, unit) prog" where
  "transfer_terminate K transfer last_desc =
     mthen (link_step K (desc_virt transfer) (nat last_desc) False 0)
     (at_descs (desc_virt transfer)
       (control_step K (nat last_desc) (XDMA_DESC_STOPPED OR XDMA_DESC_EOP OR XDMA_DESC_COMPLETED)))"

text \<open>The loop of \<open>xpcie_h2c_write\<close> that stores the adjacency counts.\<close>

definition set_adjacent :: "kapi \<Rightarrow> xdma_transfer \<Rightarrow> (world, unit) prog" where
  "set_adjacent K transfer =
     forM [0..<nat (desc_num transfer)] (\<lambda>i. at_descs (desc_virt transfer)
       (arr_upd i (xdma_desc_adjacent K (desc_num transfer - int i - 1))))"

section \<open>Dumping\<close>

text \<open>
  The lines \<open>dump_desc\<close> prints: the address of the word, the low bits of the address, the word as
  it lies in memory, its value, and the name of the field. The dump of a list is the text of the
  call, its result here; the empty line and the headline are left out.
\<close>

record dump_line =
  dl_addr :: u64
  dl_low :: u64
  dl_raw :: u32
  dl_value :: u32
  dl_name :: string

definition field_names :: "string list" where
  "field_names = [''magic|extra_adjacent|control'', ''bytes'', ''src_addr_lo'', ''src_addr_hi'',
     ''dst_addr_lo'', ''dst_addr_hi'', ''next_addr'', ''next_addr_pad'']"

definition desc_words :: "xdma_desc \<Rightarrow> u32 list" where
  "desc_words d = [control d, bytes d, src_addr_lo d, src_addr_hi d, dst_addr_lo d, dst_addr_hi d, next_lo d, next_hi d]"

definition dump_desc :: "kapi \<Rightarrow> u64 \<Rightarrow> xdma_desc \<Rightarrow> dump_line list" where
  "dump_desc K p d = map (\<lambda>j. let q = p + 4 * of_nat j; v = desc_words d ! j in
     \<lparr>dl_addr = q, dl_low = q AND 15, dl_raw = v, dl_value = le32_to_cpu K v, dl_name = field_names ! j\<rparr>) [0..<8]"

definition transfer_dump :: "kapi \<Rightarrow> xdma_transfer \<Rightarrow> (world, dump_line list) prog" where
  "transfer_dump K transfer =
     mthen (bug_on (desc_num transfer = 0))
     (foldM (\<lambda>i ls. at_descs (desc_virt transfer)
        (mbind (get_state id) (\<lambda>ds. mbind (arr_read ds i) (\<lambda>d.
         ret (ls @ dump_desc K (desc_virt transfer + of_nat i * sizeof_xdma_desc) d)))))
       [0..<nat (desc_num transfer)] [])"

section \<open>Correctness of building\<close>

text \<open>
  The bus addresses the mapped scatter list describes, in order; and the copies between those
  addresses and end point addresses, in the direction of the transfer.
\<close>

definition dma_span :: "scatterlist \<Rightarrow> u64 list" where
  "dma_span e = span (dma_address e) (unat (dma_length e))"

definition dma_bytes :: "scatterlist list \<Rightarrow> u64 list" where
  "dma_bytes l = concat (map dma_span l)"

definition directed :: "int \<Rightarrow> u64 list \<Rightarrow> u64 list \<Rightarrow> (u64 \<times> u64) list" where
  "directed to_dev rc ep = (if to_dev \<noteq> 0 then zip rc ep else zip ep rc)"

definition rc_addr :: "kapi \<Rightarrow> int \<Rightarrow> xdma_desc \<Rightarrow> u64" where
  "rc_addr K to_dev d = (if to_dev \<noteq> 0 then src_addr K d else dst_addr K d)"

definition ep_of :: "kapi \<Rightarrow> int \<Rightarrow> xdma_desc \<Rightarrow> u64" where
  "ep_of K to_dev d = (if to_dev \<noteq> 0 then dst_addr K d else src_addr K d)"

lemma dma_bytes_simps [simp]:
  "dma_bytes [] = []" "dma_bytes (e # l) = dma_span e @ dma_bytes l"
  "dma_bytes (l @ l') = dma_bytes l @ dma_bytes l'"
  by (simp_all add: dma_bytes_def)

lemma directed_append [simp]:
  "length rc = length ep \<Longrightarrow>
    directed to_dev (rc @ rc') (ep @ ep') = directed to_dev rc ep @ directed to_dev rc' ep'"
  by (simp add: directed_def)

lemma directed_Nil [simp]: "directed to_dev [] [] = []"
  by (simp add: directed_def)

lemma desc_copies_set:
  "byte_order_ok K \<Longrightarrow> desc_copies K (xdma_desc_set K rc ep len to_dev d)
     = directed to_dev (span rc (unat len)) (span ep (unat len))"
  by (simp add: desc_copies_def xdma_desc_set_reads directed_def)

lemma xdma_desc_set_sides:
  assumes "byte_order_ok K"
  shows "rc_addr K to_dev (xdma_desc_set K rc ep len to_dev d) = rc"
    and "ep_of K to_dev (xdma_desc_set K rc ep len to_dev d) = ep"
  using assms by (simp_all add: rc_addr_def ep_of_def xdma_desc_set_reads)

text \<open>Setting a descriptor keeps its control word and its link.\<close>

definition same_links :: "xdma_desc \<Rightarrow> xdma_desc \<Rightarrow> bool" where
  "same_links d d' \<longleftrightarrow> control d' = control d \<and> next_lo d' = next_lo d \<and> next_hi d' = next_hi d"

lemma same_links_set [simp]: "same_links d (xdma_desc_set K rc ep len to_dev d)"
  by (simp add: same_links_def xdma_desc_set_def Let_def)

lemma same_links_refl [simp]: "same_links d d"
  by (simp add: same_links_def)

text \<open>Whether the end point address advances from one descriptor to the next.\<close>

definition advances :: "int \<Rightarrow> int \<Rightarrow> bool" where
  "advances non_incr_addr from_user \<longleftrightarrow> from_user = 0 \<or> non_incr_addr = 0"

text \<open>
  The state of the descriptors when \<open>j\<close> of them are written and together cover the bus
  addresses \<open>rc\<close>; \<open>bound\<close> limits the length of each.
\<close>

definition written ::
  "kapi \<Rightarrow> int \<Rightarrow> bool \<Rightarrow> u64 \<Rightarrow> nat \<Rightarrow> xdma_desc list \<Rightarrow> nat \<Rightarrow> u64 list \<Rightarrow> xdma_desc list \<Rightarrow> bool" where
  "written K to_dev adv ep0 bound ds j rc ds' \<longleftrightarrow>
     length ds' = length ds
     \<and> (\<forall>k < length ds. same_links (ds ! k) (ds' ! k))
     \<and> (\<forall>k < length ds. j \<le> k \<longrightarrow> ds' ! k = ds ! k)
     \<and> (\<forall>k < j. desc_len K (ds' ! k) \<le> bound)
     \<and> concat (map (\<lambda>d. span (rc_addr K to_dev d) (desc_len K d)) (take j ds')) = rc
     \<and> (if adv then plan K (take j ds') = directed to_dev rc (span ep0 (length rc))
        else \<forall>k < j. ep_of K to_dev (ds' ! k) = ep0)"

lemma written_0: "written K to_dev adv ep0 bound ds 0 [] ds"
  by (simp add: written_def)

lemma written_Suc:
  assumes K: "byte_order_ok K" and w: "written K to_dev adv ep0 bound ds j rc ds'"
    and j: "j < length ds" and len: "unat len \<le> bound"
    and ep: "ep = (if adv then ep0 + of_nat (length rc) else ep0)"
  shows "written K to_dev adv ep0 bound ds (Suc j) (rc @ span a (unat len))
    (ds'[j := xdma_desc_set K a ep len to_dev (ds' ! j)])"
proof -
  have ds: "length ds' = length ds" "ds' ! j = ds ! j"
    using w j by (auto simp: written_def)
  have e: "span ep0 (length rc + unat len) = span ep0 (length rc) @ span (ep0 + of_nat (length rc)) (unat len)"
    by (rule span_append)
  show ?thesis
    using w j ds len ep e
    unfolding written_def
    by (auto simp: take_Suc_update nth_list_update less_Suc_eq xdma_desc_set_reads [OF K]
        xdma_desc_set_sides [OF K] desc_copies_set [OF K])
qed

definition build_inv ::
  "kapi \<Rightarrow> int \<Rightarrow> bool \<Rightarrow> u64 \<Rightarrow> nat \<Rightarrow> scatterlist list \<Rightarrow> xdma_desc list \<Rightarrow> nat \<Rightarrow> build_vars
    \<Rightarrow> xdma_desc list \<Rightarrow> bool" where
  "build_inv K to_dev adv ep0 bound l ds i v ds' \<longleftrightarrow>
     desc_idx v \<le> i \<and> unat (cont_len v) \<le> 258047
     \<and> addr v = dma_address (l ! i) \<and> cont_addr v + ucast (cont_len v) = addr v
     \<and> (\<exists>rc. written K to_dev adv ep0 bound ds (desc_idx v) rc ds'
          \<and> dma_bytes (take i l) = rc @ span (cont_addr v) (unat (cont_len v))
          \<and> ep_addr v = (if adv then ep0 + of_nat (length rc) else ep0))"

lemma limit_iff: "(ucast (c :: u32) :: u64) > XDMA_DESC_MAX_BYTES - PAGE_SIZE \<longleftrightarrow> 258047 < unat c"
proof -
  have "unat (XDMA_DESC_MAX_BYTES - PAGE_SIZE) = 258047"
    by (simp add: XDMA_DESC_MAX_BYTES_def PAGE_SIZE_def)
  then show ?thesis by (simp add: word_less_nat_alt)
qed

text \<open>Whether every segment gets a descriptor of its own.\<close>

definition every_entry :: "int \<Rightarrow> int \<Rightarrow> bool" where
  "every_entry force_new from_user \<longleftrightarrow> force_new \<noteq> 0 \<and> from_user = 0"

text \<open>A step either ends the current block and starts the next, or goes on with it.\<close>

definition ends_block :: "scatterlist list \<Rightarrow> nat \<Rightarrow> bool \<Rightarrow> build_vars \<Rightarrow> bool" where
  "ends_block l i every v \<longleftrightarrow> every \<or> dma_address (l ! Suc i) \<noteq> addr v + ucast (dma_length (l ! i))
     \<or> ucast (cont_len v + dma_length (l ! i)) > XDMA_DESC_MAX_BYTES - PAGE_SIZE"

lemma runs_build_step:
  assumes "Suc i < length l" and "desc_idx v < length ds"
    and "\<And>mx. ends_block l i (every_entry force_new from_user) v \<Longrightarrow>
      Q \<lparr>cont_addr = dma_address (l ! Suc i), addr = dma_address (l ! Suc i), cont_len = 0, cont_max_len = mx,
          ep_addr = (if advances non_incr from_user then ep_addr v + ucast (cont_len v + dma_length (l ! i)) else ep_addr v),
          desc_idx = Suc (desc_idx v)\<rparr>
        (ds[desc_idx v := xdma_desc_set K (cont_addr v) (ep_addr v) (cont_len v + dma_length (l ! i)) to_dev (ds ! desc_idx v)])"
    and "\<not> ends_block l i (every_entry force_new from_user) v \<Longrightarrow>
      Q (v\<lparr>addr := dma_address (l ! Suc i), cont_len := cont_len v + dma_length (l ! i)\<rparr>) ds"
  shows "runs (build_step K l to_dev non_incr force_new from_user i v) ds Q"
  using assms unfolding build_step_def Let_def ends_block_def
  by (auto simp: every_entry_def advances_def split: if_splits)

text \<open>The invariant at a segment: with it, the current block covers what no descriptor covers yet.\<close>

lemma build_inv_block:
  assumes inv: "build_inv K to_dev adv ep0 bound l ds i v ds'" and i: "i < length l"
    and len: "unat (dma_length (l ! i)) \<le> M" "258047 + M < 2 ^ 32"
    and c: "c = cont_len v + dma_length (l ! i)"
  obtains rc where "written K to_dev adv ep0 bound ds (desc_idx v) rc ds'"
    and "dma_bytes (take (Suc i) l) = rc @ span (cont_addr v) (unat c)" and "unat c \<le> 258047 + M"
    and "ep_addr v = (if adv then ep0 + of_nat (length rc) else ep0)"
    and "cont_addr v + ucast c = addr v + ucast (dma_length (l ! i))"
proof -
  from inv obtain rc where cl: "unat (cont_len v) \<le> 258047"
    and a: "addr v = dma_address (l ! i)" "cont_addr v + ucast (cont_len v) = addr v"
    and w: "written K to_dev adv ep0 bound ds (desc_idx v) rc ds'"
    and rc: "dma_bytes (take i l) = rc @ span (cont_addr v) (unat (cont_len v))"
    and ep: "ep_addr v = (if adv then ep0 + of_nat (length rc) else ep0)"
    by (auto simp: build_inv_def)
  have uc: "unat c = unat (cont_len v) + unat (dma_length (l ! i))"
    unfolding c using cl len by (subst unat_add_lem [THEN iffD1]) auto
  have cw: "ucast c = (ucast (cont_len v) + ucast (dma_length (l ! i)) :: u64)"
    unfolding c using cl len by (intro ucast_add_u32) simp
  have "span (cont_addr v) (unat c) = span (cont_addr v) (unat (cont_len v)) @ dma_span (l ! i)"
    using a unfolding uc span_append dma_span_def by simp
  then have "dma_bytes (take (Suc i) l) = rc @ span (cont_addr v) (unat c)"
    using i rc by (simp add: take_Suc_conv_app_nth)
  moreover have "cont_addr v + ucast c = addr v + ucast (dma_length (l ! i))"
    unfolding cw using a(2) by (simp add: add.assoc [symmetric])
  ultimately show thesis using that [OF w _ _ ep] uc cl len by simp
qed

lemma build_step_inv:
  assumes K: "byte_order_ok K"
    and i: "Suc i < length l" "Suc i < length ds"
    and len: "unat (dma_length (l ! i)) \<le> M" "258047 + M < 2 ^ 32" "258047 + M \<le> bound"
    and inv: "build_inv K to_dev (advances non_incr from_user) ep0 bound l ds i v ds'"
  shows "runs (build_step K l to_dev non_incr force_new from_user i v) ds'
    (build_inv K to_dev (advances non_incr from_user) ep0 bound l ds (Suc i))"
proof -
  define c where "c = cont_len v + dma_length (l ! i)"
  obtain rc where w: "written K to_dev (advances non_incr from_user) ep0 bound ds (desc_idx v) rc ds'"
    and bytes: "dma_bytes (take (Suc i) l) = rc @ span (cont_addr v) (unat c)" and uc: "unat c \<le> 258047 + M"
    and ep: "ep_addr v = (if advances non_incr from_user then ep0 + of_nat (length rc) else ep0)"
    and nxt: "cont_addr v + ucast c = addr v + ucast (dma_length (l ! i))"
    by (rule build_inv_block [OF inv _ len(1,2) c_def]) (use i in simp)
  have j: "desc_idx v \<le> i" using inv by (simp add: build_inv_def)
  have lds: "length ds' = length ds" using w by (simp add: written_def)
  show ?thesis
  proof (rule runs_build_step, goal_cases)
    case (3 mx)
    have "written K to_dev (advances non_incr from_user) ep0 bound ds (Suc (desc_idx v)) (rc @ span (cont_addr v) (unat c))
      (ds'[desc_idx v := xdma_desc_set K (cont_addr v) (ep_addr v) c to_dev (ds' ! desc_idx v)])"
      using i j len uc by (intro written_Suc [OF K w _ _ ep]) auto
    then show ?case
      unfolding build_inv_def c_def [symmetric] using j bytes ep
      by (auto intro!: exI [where x = "rc @ span (cont_addr v) (unat c)"])
  next
    case 4
    then have "unat c \<le> 258047" "cont_addr v + ucast c = dma_address (l ! Suc i)"
      using nxt by (auto simp: ends_block_def c_def limit_iff)
    then show ?case
      unfolding build_inv_def c_def [symmetric] using j w bytes ep
      by (auto intro!: exI [where x = rc])
  qed (use i j lds in auto)
qed

lemma build_descs_runs:
  assumes K: "byte_order_ok K" and n: "0 < n" "n \<le> length l" "n \<le> length ds"
    and len: "\<And>i. i < n \<Longrightarrow> unat (dma_length (l ! i)) \<le> M" "258047 + M < 2 ^ 32" "258047 + M \<le> bound"
  shows "runs (build_descs K l (int n) ep0 to_dev non_incr force_new from_user) ds
    (\<lambda>last_desc ds'. \<exists>j < n. last_desc = int j
       \<and> written K to_dev (advances non_incr from_user) ep0 bound ds (Suc j) (dma_bytes (take n l)) ds')"
proof -
  let ?adv = "advances non_incr from_user"
  let ?I = "build_inv K to_dev ?adv ep0 bound l ds"
  let ?v0 = "\<lparr>cont_addr = dma_address (l ! 0), addr = dma_address (l ! 0), cont_len = 0, cont_max_len = 0,
    ep_addr = ep0, desc_idx = 0\<rparr>"
  have init: "?I 0 ?v0 ds"
    using written_0 by (auto simp: build_inv_def)
  have loop: "runs (foldM (build_step K l to_dev non_incr force_new from_user) [0..<n - 1] ?v0) ds (?I (n - 1))"
  proof (rule runs_foldM_upt [where I = ?I])
    fix i v ds'
    assume "i < n - 1" and inv: "?I i v ds'"
    then have i: "Suc i < n" by simp
    then show "runs (build_step K l to_dev non_incr force_new from_user i v) ds' (?I (Suc i))"
      using n len(1) [of i] by (intro build_step_inv [OF K _ _ _ len(2,3) inv]) auto
  qed (use init in auto)
  have last: "desc_idx v < n \<and> length ds' = length ds \<and> written K to_dev ?adv ep0 bound ds (Suc (desc_idx v)) (dma_bytes (take n l))
      (ds'[desc_idx v := xdma_desc_set K (cont_addr v) (ep_addr v) (cont_len v + dma_length (l ! (n - 1))) to_dev
         (ds' ! desc_idx v)])"
    if inv: "?I (n - 1) v ds'" for v ds'
  proof -
    have i: "n - 1 < length l" "Suc (n - 1) = n" "n - 1 < n" using n by simp_all
    obtain rc where w: "written K to_dev ?adv ep0 bound ds (desc_idx v) rc ds'"
      and bytes: "dma_bytes (take n l) = rc @ span (cont_addr v) (unat (cont_len v + dma_length (l ! (n - 1))))"
      and uc: "unat (cont_len v + dma_length (l ! (n - 1))) \<le> 258047 + M"
      and ep: "ep_addr v = (if ?adv then ep0 + of_nat (length rc) else ep0)"
      by (rule build_inv_block [OF inv i(1) len(1) [OF i(3)] len(2) refl, unfolded i(2)])
    have "desc_idx v \<le> n - 1" using inv by (simp add: build_inv_def)
    then show ?thesis
      unfolding bytes using uc len(3) n w by (intro conjI written_Suc [OF K w _ _ ep]) (auto simp: written_def)
  qed
  have l: "l \<noteq> []" using n by auto
  show ?thesis
    unfolding build_descs_def using n l
    by (simp add: nat_diff_distrib) (rule runs_weaken [OF loop [unfolded One_nat_def]], use last n in force)
qed

section \<open>The steps on the world\<close>

lemma transfer_build_runs:
  assumes K: "byte_order_ok K"
    and w: "sgms w (sgm t) = Some s" "sgl_arrs w (sgl s) = Some l" "desc_arrs w (desc_virt t) = Some ds"
    and n: "sgl_nents t = int n" "0 < n" "n \<le> length l" "n \<le> length ds"
    and len: "\<And>i. i < n \<Longrightarrow> unat (dma_length (l ! i)) \<le> M" "258047 + M < 2 ^ 32" "258047 + M \<le> bound"
  shows "runs (transfer_build K t ep0 to_dev non_incr force_new from_user) w
    (\<lambda>last_desc w'. \<exists>j ds'. j < n \<and> last_desc = int j \<and> w' = put_descs w (desc_virt t) ds'
       \<and> written K to_dev (advances non_incr from_user) ep0 bound ds (Suc j) (dma_bytes (take n l)) ds')"
  using w n(1) by (simp add: transfer_build_def)
    (rule runs_weaken [OF build_descs_runs [OF K n(2,3,4) len]], auto)

lemma runs_link_step:
  assumes "desc_arrs w virt = Some ds" and "i < length ds"
  shows "runs (link_step K virt i second bus) w Q = 
    (let (d, warn) = xdma_desc_link K second bus (ds ! i); w' = put_descs w virt (ds[i := d])
     in Q () (if warn then logged w' [Io E_warn_on] else w'))"
  using assms by (auto simp: link_step_def Let_def split: prod.splits)

lemma runs_control_step:
  assumes "f AND NOT LS_BYTE_MASK = 0" and "i < length ds"
  shows "runs (control_step K i f) ds Q = Q () (ds[i := merge_control K f (ds ! i)])"
  using assms by (simp add: control_step_def xdma_desc_control_def runs_def prog_defs 
      arr_read_def arr_get_def arr_upd_def)

definition stop_bits :: u32 where
  "stop_bits = XDMA_DESC_STOPPED OR XDMA_DESC_EOP OR XDMA_DESC_COMPLETED"

lemma stop_bits_low: "stop_bits AND NOT LS_BYTE_MASK = 0"
  by (simp add: stop_bits_def XDMA_DESC_STOPPED_def XDMA_DESC_EOP_def XDMA_DESC_COMPLETED_def LS_BYTE_MASK_def)

text \<open>The last descriptor after \<open>transfer_terminate\<close>.\<close>

definition terminated :: "kapi \<Rightarrow> xdma_desc \<Rightarrow> xdma_desc" where
  "terminated K d = merge_control K stop_bits (fst (xdma_desc_link K False 0 d))"

lemma runs_transfer_terminate:
  assumes "desc_arrs w (desc_virt t) = Some ds" and "j < length ds"
  shows "runs (transfer_terminate K t (int j)) w Q
    = Q () (put_descs w (desc_virt t) (ds[j := terminated K (ds ! j)]))"
  using assms runs_control_step [OF stop_bits_low]
  by (simp add: transfer_terminate_def runs_link_step xdma_desc_link_def Let_def terminated_def
      flip: stop_bits_def)

text \<open>The descriptors after the adjacency loop over the first \<open>n\<close> of them.\<close>

definition counted :: "kapi \<Rightarrow> nat \<Rightarrow> nat \<Rightarrow> xdma_desc list \<Rightarrow> xdma_desc list" where
  "counted K n i ds = map (\<lambda>(k, d). xdma_desc_adjacent K (int n - int k - 1) d) (enumerate 0 (take i ds)) @ drop i ds"

lemma counted_Suc: "i < length ds \<Longrightarrow> 
  (counted K n i ds)[i := xdma_desc_adjacent K (int n - int i - 1) (counted K n i ds ! i)] = counted K n (Suc i) ds"
  by (simp add: counted_def take_Suc_conv_app_nth enumerate_append_eq nth_append list_update_append
      Cons_nth_drop_Suc [symmetric])

lemma length_counted [simp]: "length (counted K n i ds) = length ds"
  by (simp add: counted_def)

lemma nth_counted: "k < length ds \<Longrightarrow> counted K n i ds ! k = 
  (if k < i then xdma_desc_adjacent K (int n - int k - 1) (ds ! k) else ds ! k)"
  by (auto simp: counted_def nth_append nth_enumerate_eq)

lemma runs_set_adjacent:
  assumes w: "desc_arrs w (desc_virt t) = Some ds" and n: "desc_num t = int n" "n \<le> length ds"
  shows "runs (set_adjacent K t) w Q = Q () (put_descs w (desc_virt t) (counted K n n ds))"
proof (rule runs_eq)
  have "runs (set_adjacent K t) w (\<lambda>_ w'. w' = put_descs w (desc_virt t) (counted K n n ds))"
    unfolding set_adjacent_def n(1) nat_int
  proof (rule runs_forM_upt [where I = "\<lambda>i w'. w' = put_descs w (desc_virt t) (counted K n i ds)"])
    fix i w' assume "i < n" "w' = put_descs w (desc_virt t) (counted K n i ds)"
    then show "runs (at_descs (desc_virt t) (arr_upd i (xdma_desc_adjacent K (int n - int i - 1)))) w'
      (\<lambda>_ w'. w' = put_descs w (desc_virt t) (counted K n (Suc i) ds))"
      using n by (simp add: counted_Suc)
  qed (use w in \<open>auto simp: counted_def put_descs_same\<close>)
  then show "runs (set_adjacent K t) w (\<lambda>a w'. a = () \<and> w' = put_descs w (desc_virt t) (counted K n n ds))"
    by simp
qed

section \<open>Correctness of dumping\<close>

definition dump_descs :: "kapi \<Rightarrow> u64 \<Rightarrow> xdma_desc list \<Rightarrow> dump_line list" where
  "dump_descs K p ds = concat (map (\<lambda>i. dump_desc K (p + of_nat i * sizeof_xdma_desc) (ds ! i)) [0..<length ds])"

lemma runs_transfer_dump:
  assumes w: "desc_arrs w (desc_virt t) = Some ds" and n: "desc_num t = int n" "0 < n" "n \<le> length ds"
  shows "runs (transfer_dump K t) w Q = Q (dump_descs K (desc_virt t) (take n ds)) w"
proof (rule runs_eq)
  let ?lines = "\<lambda>i. concat (map (\<lambda>i. dump_desc K (desc_virt t + of_nat i * sizeof_xdma_desc) (ds ! i)) [0..<i])"
  have "runs (foldM (\<lambda>i ls. at_descs (desc_virt t)
        (mbind (get_state id) (\<lambda>ds. mbind (arr_read ds i) (\<lambda>d.
         ret (ls @ dump_desc K (desc_virt t + of_nat i * sizeof_xdma_desc) d))))) [0..<n] []) w
      (\<lambda>ls w'. ls = ?lines n \<and> w' = w)"
    by (rule runs_foldM_upt [where I = "\<lambda>i ls w'. ls = ?lines i \<and> w' = w"]) (use w n in \<open>auto simp: put_descs_same\<close>)
  moreover have "?lines n = dump_descs K (desc_virt t) (take n ds)"
  proof -
    have "length (take n ds) = n" using n(3) by simp
    then show ?thesis
      unfolding dump_descs_def by (intro arg_cong [where f = concat] map_cong) simp_all
  qed
  ultimately show "runs (transfer_dump K t) w (\<lambda>a w'. a = dump_descs K (desc_virt t) (take n ds) \<and> w' = w)"
    using n by (simp add: transfer_dump_def)
qed

text \<open>Reading a dump back: every eight lines give a descriptor.\<close>

fun undump_descs :: "dump_line list \<Rightarrow> xdma_desc list" where
  "undump_descs (a # b # c # d # e # f # g # h # ls) =
     \<lparr>control = dl_raw a, bytes = dl_raw b, src_addr_lo = dl_raw c, src_addr_hi = dl_raw d,
      dst_addr_lo = dl_raw e, dst_addr_hi = dl_raw f, next_lo = dl_raw g, next_hi = dl_raw h\<rparr> # undump_descs ls"
| "undump_descs ls = []"

lemma dump_descs_Cons: "dump_descs K p (d # ds) = dump_desc K p d @ dump_descs K (p + sizeof_xdma_desc) ds"
proof -
  have "map (\<lambda>i. dump_desc K (p + of_nat i * sizeof_xdma_desc) ((d # ds) ! i)) [0..<length (d # ds)]
      = dump_desc K p d # map (\<lambda>i. dump_desc K (p + of_nat (Suc i) * sizeof_xdma_desc) (ds ! i)) [0..<length ds]"
    by (simp only: length_Cons upt_conv_Cons [OF zero_less_Suc] list.map map_Suc_upt [symmetric] map_map comp_def
        nth_Cons_Suc nth_Cons_0 semiring_1_class.of_nat_0 mult_zero_left add_0_right)
  then show ?thesis by (simp add: dump_descs_def algebra_simps)
qed

lemma upt_8: "[0..<8] = [0, 1, 2, 3, 4, 5, 6, 7]"
  by (simp add: upt_rec numeral_nat)

lemma undump_dump: "undump_descs (dump_descs K p ds) = ds"
proof (induction ds arbitrary: p)
  case (Cons d ds)
  then show ?case by (simp add: dump_descs_Cons dump_desc_def desc_words_def upt_8 Let_def)
qed (simp add: dump_descs_def)

lemma dump_addresses: "map dl_addr (dump_descs K p ds) = map (\<lambda>k. p + 4 * of_nat k) [0..<8 * length ds]"
proof (induction ds arbitrary: p)
  case (Cons d ds)
  have "map (\<lambda>k. p + 4 * of_nat k) [0..<8 * length (d # ds)]
      = map (\<lambda>k. p + 4 * of_nat k) [0..<8] @ map (\<lambda>k. p + 4 * of_nat (8 + k)) [0..<8 * length ds]"
    using map_upt_add [of "\<lambda>k. p + 4 * of_nat k" 8 "8 * length ds"] by (simp add: algebra_simps)
  then show ?case
    using Cons [of "p + sizeof_xdma_desc"]
    by (simp add: dump_descs_Cons dump_desc_def sizeof_xdma_desc_def Let_def comp_def algebra_simps)
qed (simp add: dump_descs_def)

end
