(* ===== verification/Chain.thy ===== *)
theory Chain
  imports TransferBuild
begin

text \<open>
  The finished descriptor list of a transfer, as the device finds it in memory: what every
  descriptor says after \<open>xdma_desc_alloc\<close>, \<open>transfer_build\<close>, \<open>transfer_terminate\<close> and
  the adjacency loop, and the list the device reads when it follows the links.
\<close>

section \<open>The finished list\<close>

text \<open>
  \<open>ready K bus j to_dev adv ep0 rc bound ds\<close>: the first \<open>j + 1\<close> descriptors of the array
  \<open>ds\<close>, which lies at the bus address \<open>bus\<close>, form a terminated list that copies between the
  bus addresses \<open>rc\<close> and the end point, \<open>bound\<close> bytes at most with each descriptor.
\<close>

definition ready ::
  "kapi \<Rightarrow> u64 \<Rightarrow> nat \<Rightarrow> int \<Rightarrow> bool \<Rightarrow> u64 \<Rightarrow> u64 list \<Rightarrow> nat \<Rightarrow> xdma_desc list \<Rightarrow> bool" where
  "ready K bus j to_dev adv ep0 rc bound ds \<longleftrightarrow> j < length ds
     \<and> (\<forall>k \<le> j. desc_magic K (ds ! k) \<and> desc_len K (ds ! k) \<le> bound)
     \<and> (\<forall>k < j. next_addr K (ds ! k) = bus + of_nat (Suc k) * sizeof_xdma_desc \<and> ctl_byte K (ds ! k) = 0)
     \<and> next_addr K (ds ! j) = 0 \<and> ctl_byte K (ds ! j) = stop_bits
     \<and> (\<forall>k \<le> j. adj_field K (ds ! k) = nat (extra_adj_of K (int j - int k) (ds ! k)))
     \<and> concat (map (\<lambda>d. span (rc_addr K to_dev d) (desc_len K d)) (take (Suc j) ds)) = rc
     \<and> (if adv then plan K (take (Suc j) ds) = directed to_dev rc (span ep0 (length rc))
        else \<forall>k \<le> j. ep_of K to_dev (ds ! k) = ep0)"

text \<open>Two descriptors that tell the device to do the same copy.\<close>

definition same_copy :: "kapi \<Rightarrow> xdma_desc \<Rightarrow> xdma_desc \<Rightarrow> bool" where
  "same_copy K d d' \<longleftrightarrow> src_addr K d' = src_addr K d \<and> dst_addr K d' = dst_addr K d
     \<and> desc_len K d' = desc_len K d"

lemma same_copy_reads:
  assumes "same_copy K d d'"
  shows "desc_copies K d' = desc_copies K d" "rc_addr K t d' = rc_addr K t d" "ep_of K t d' = ep_of K t d"
    "desc_len K d' = desc_len K d"
  using assms by (auto simp: same_copy_def desc_copies_def rc_addr_def ep_of_def)

lemma payload_same_copy: "payload_editor ed \<Longrightarrow> same_copy K d (ed d)"
  by (simp add: same_copy_def desc_reads payload_editor.keeps)

lemma same_copy_trans: "same_copy K a b \<Longrightarrow> same_copy K b c \<Longrightarrow> same_copy K a c"
  by (simp add: same_copy_def)

lemma terminated_copy: "same_copy K d (terminated K d)"
  unfolding terminated_def
  by (rule same_copy_trans [OF payload_same_copy [OF link.payload_editor_axioms]
        payload_same_copy [OF mark.payload_editor_axioms]])

lemma adjacent_copy: "same_copy K d (xdma_desc_adjacent K n d)"
  by (rule payload_same_copy [OF adjacent.payload_editor_axioms])

lemma terminated_reads:
  assumes "byte_order_ok K"
  shows "next_addr K (terminated K d) = 0" "desc_magic K (terminated K d)"
    "ctl_byte K (terminated K d) = stop_bits"
  using assms
  by (simp_all add: terminated_def mark.next_same xdma_desc_link_next merge_control_reads stop_bits_low
      xdma_desc_link_control)

lemma extra_adj_of_next: "next_lo d' = next_lo d \<Longrightarrow> extra_adj_of K n d' = extra_adj_of K n d"
  by (simp only: extra_adj_of_def max_adj_4k_def)

lemma same_links_reads:
  assumes "same_links d d'"
  shows "next_addr K d' = next_addr K d" "desc_magic K d' = desc_magic K d" "ctl_byte K d' = ctl_byte K d"
  using assms by (auto simp: same_links_def desc_reads desc_magic_def ctl_byte_def)

text \<open>The descriptors of \<open>xpcie_h2c_write\<close>, from the raw array to the finished list.\<close>

definition finished :: "kapi \<Rightarrow> nat \<Rightarrow> xdma_desc list \<Rightarrow> xdma_desc list" where
  "finished K j ds = counted K (Suc j) (Suc j) (ds[j := terminated K (ds ! j)])"

lemma finished_nth:
  assumes "j < length ds" and "k \<le> j"
  shows "finished K j ds ! k = xdma_desc_adjacent K (int j - int k) (if k = j then terminated K (ds ! j) else ds ! k)"
  using assms by (simp add: finished_def nth_counted)

lemma finished_copies:
  assumes j: "j < length ds" and "k \<le> j"
  shows "same_copy K (ds ! k) (finished K j ds ! k)"
  unfolding finished_nth [OF assms]
  using terminated_copy by (intro same_copy_trans [OF _ adjacent_copy]) (simp add: same_copy_def)

lemma map_finished:
  assumes "j < length ds" and "\<And>d d'. same_copy K d d' \<Longrightarrow> f d' = f d"
  shows "map f (take (Suc j) (finished K j ds)) = map f (take (Suc j) ds)"
  using assms finished_copies [OF assms(1)]
  by (intro nth_equalityI) (auto simp: finished_def less_Suc_eq_le)

lemma finished_ready:
  assumes K: "byte_order_ok K" and c: "chained K bus m raw ds0" and j: "j \<le> m"
    and w: "written K to_dev adv ep0 bound ds0 (Suc j) rc ds"
  shows "ready K bus j to_dev adv ep0 rc bound (finished K j ds)"
proof -
  have len: "length ds0 = Suc m" "length ds = Suc m" and links: "\<And>k. k \<le> m \<Longrightarrow> same_links (ds0 ! k) (ds ! k)"
    using c w by (auto simp: chained_def written_def)
  have jl: "j < length ds" using j len by simp
  have mid: "ds0 ! k = chain_mid K bus m k (raw ! k)" if "k < j" for k
    using c that j by (simp add: chained_def)
  note f = finished_nth [OF jl] and sc = same_copy_reads [OF finished_copies [OF jl]]
  have lenf: "length (finished K j ds) = length ds" by (simp add: finished_def)
  have mp: "plan K (take (Suc j) (finished K j ds)) = plan K (take (Suc j) ds)"
    unfolding plan_def using same_copy_reads(1) by (subst map_finished [OF jl]) auto
  have rcs: "map (\<lambda>d. span (rc_addr K to_dev d) (desc_len K d)) (take (Suc j) (finished K j ds))
      = map (\<lambda>d. span (rc_addr K to_dev d) (desc_len K d)) (take (Suc j) ds)"
    by (rule map_finished [OF jl]) (simp add: same_copy_reads)
  have links': "next_addr K (finished K j ds ! k) = bus + of_nat (Suc k) * sizeof_xdma_desc
      \<and> ctl_byte K (finished K j ds ! k) = 0" if "k < j" for k
  proof -
    have k: "k \<le> j" "k \<noteq> j" "k < m" using that j by simp_all
    have l: "next_addr K (ds ! k) = next_addr K (ds0 ! k)" "ctl_byte K (ds ! k) = ctl_byte K (ds0 ! k)"
      using same_links_reads [OF links] k by simp_all
    show ?thesis
      unfolding f [OF k(1)] if_not_P [OF k(2)] adjacent.next_same xdma_desc_adjacent_reads [OF K] l mid [OF that]
        chain_mid_reads [OF K k(3)] by simp
  qed
  have adj: "adj_field K (finished K j ds ! k) = nat (extra_adj_of K (int j - int k) (finished K j ds ! k))" if "k \<le> j" for k
    unfolding f [OF that] xdma_desc_adjacent_reads [OF K]
    by (simp only: extra_adj_of_next [OF adjacent.keeps_next_lo])
  have each: "desc_magic K (finished K j ds ! k) \<and> desc_len K (finished K j ds ! k) \<le> bound" if "k \<le> j" for k
    using w sc(4) [OF that] f [OF that] that by (simp add: written_def xdma_desc_adjacent_reads [OF K] less_Suc_eq_le)
  have last: "next_addr K (finished K j ds ! j) = 0" "ctl_byte K (finished K j ds ! j) = stop_bits"
    using f [of j] by (simp_all add: adjacent.next_same xdma_desc_adjacent_reads [OF K] terminated_reads [OF K])
  have ep: "if adv then plan K (take (Suc j) (finished K j ds)) = directed to_dev rc (span ep0 (length rc))
        else \<forall>k \<le> j. ep_of K to_dev (finished K j ds ! k) = ep0"
    using w sc(3) unfolding mp by (simp add: written_def less_Suc_eq_le)
  have rc: "concat (map (\<lambda>d. span (rc_addr K to_dev d) (desc_len K d)) (take (Suc j) (finished K j ds))) = rc"
    using w unfolding rcs by (simp add: written_def)
  show ?thesis
    unfolding ready_def using jl lenf links' adj each last by (intro conjI rc ep) auto
qed

section \<open>The device follows the links\<close>

text \<open>
  The descriptors in memory by bus address, and the list read from address \<open>a\<close> on: the device
  accepts a descriptor that carries the magic number and goes on at its next address until one has
  the \<open>STOPPED\<close> bit. The first argument bounds the number of descriptors read.
\<close>

definition desc_mem :: "u64 \<Rightarrow> xdma_desc list \<Rightarrow> u64 \<rightharpoonup> xdma_desc" where
  "desc_mem bus ds = map_of (zip (map (\<lambda>k. bus + of_nat k * sizeof_xdma_desc) [0..<length ds]) ds)"

fun follow :: "kapi \<Rightarrow> nat \<Rightarrow> (u64 \<rightharpoonup> xdma_desc) \<Rightarrow> u64 \<Rightarrow> xdma_desc list option" where
  "follow K 0 mem a = None"
| "follow K (Suc fuel) mem a =
     (case mem a of None \<Rightarrow> None
      | Some d \<Rightarrow>
          if \<not> desc_magic K d then None
          else if ctl_byte K d AND XDMA_DESC_STOPPED \<noteq> 0 then Some [d]
          else map_option (\<lambda>ds. d # ds) (follow K fuel mem (next_addr K d)))"

lemma desc_addr_inj:
  assumes "i < n" "k < n" "n < 2 ^ 59" "bus + of_nat i * sizeof_xdma_desc = bus + of_nat k * sizeof_xdma_desc"
  shows "i = k"
proof -
  have u: "unat (of_nat i * sizeof_xdma_desc) = i * 32" if "i < n" for i
  proof -
    have "of_nat i * sizeof_xdma_desc = of_nat (i * 32)" by (simp add: sizeof_xdma_desc_def)
    moreover have "unat (of_nat (i * 32) :: u64) = i * 32"
      using that assms(3) by (simp only: unsigned_of_nat) (simp add: take_bit_nat_eq_self)
    ultimately show ?thesis by simp
  qed
  have "of_nat i * sizeof_xdma_desc = of_nat k * sizeof_xdma_desc" using assms(4) by simp
  then have "i * 32 = k * 32" using u assms(1,2) by metis
  then show ?thesis by simp
qed

lemma desc_mem_nth:
  assumes "k < length ds" "length ds < 2 ^ 59"
  shows "desc_mem bus ds (bus + of_nat k * sizeof_xdma_desc) = Some (ds ! k)"
proof -
  have "distinct (map (\<lambda>k. bus + of_nat k * sizeof_xdma_desc) [0..<length ds])"
    using desc_addr_inj [OF _ _ assms(2)] by (auto simp: distinct_map inj_on_def)
  then show ?thesis
    unfolding desc_mem_def using assms(1)
    by (subst map_of_eq_Some_iff) (auto simp: in_set_zip intro!: exI [where x = k])
qed

lemma stop_bits_stop: "stop_bits AND XDMA_DESC_STOPPED \<noteq> 0"
  by (simp add: stop_bits_def XDMA_DESC_STOPPED_def XDMA_DESC_EOP_def XDMA_DESC_COMPLETED_def)

lemma ready_follow_from:
  assumes r: "ready K bus j to_dev adv ep0 rc bound ds" and len: "length ds < 2 ^ 59"
    and k: "k \<le> j" "j < k + fuel"
  shows "follow K fuel (desc_mem bus ds) (bus + of_nat k * sizeof_xdma_desc) = Some (drop k (take (Suc j) ds))"
  using k
proof (induction fuel arbitrary: k)
  case 0
  then show ?case by simp
next
  case (Suc fuel)
  have j: "j < length ds" using r by (simp add: ready_def)
  then have dk: "drop k (take (Suc j) ds) = ds ! k # drop (Suc k) (take (Suc j) ds)"
    using Suc.prems by (subst Cons_nth_drop_Suc [symmetric]) auto
  have mem: "desc_mem bus ds (bus + of_nat k * sizeof_xdma_desc) = Some (ds ! k)"
    using desc_mem_nth Suc.prems j len by simp
  show ?case
  proof (cases "k = j")
    case True
    then show ?thesis using r mem dk stop_bits_stop by (simp add: ready_def)
  next
    case False
    then have "follow K fuel (desc_mem bus ds) (bus + of_nat (Suc k) * sizeof_xdma_desc)
        = Some (drop (Suc k) (take (Suc j) ds))"
      using Suc.prems by (intro Suc.IH) auto
    then show ?thesis using False Suc.prems r mem dk by (simp add: ready_def)
  qed
qed

lemma ready_follow:
  assumes "ready K bus j to_dev adv ep0 rc bound ds" and "length ds < 2 ^ 59" and "j < fuel"
  shows "follow K fuel (desc_mem bus ds) bus = Some (take (Suc j) ds)"
  using ready_follow_from [OF assms(1,2), of 0 fuel] assms(3) by simp

section \<open>Bursts\<close>

text \<open>
  The device fetches the next descriptor together with \<open>adj_field\<close> further ones in one burst.
  The burst stays inside the list and, when the array is aligned, inside a 4 KiB page.
\<close>

text \<open>The room in the 4 KiB page of the next descriptor.\<close>

lemma next_lo_page: "unat (rd K (next_lo d) AND 0xFFF) = unat (next_addr K d) mod 4096"
proof -
  have m: "(0xFFF :: u32) = mask 12" by (simp add: mask_eq_exp_minus_1)
  have "rd K (next_lo d) AND 0xFFF = ucast (take_bit 12 (next_addr K d))"
    unfolding next_addr_def m dma_join_def by (rule bit_word_eqI) (auto simp: bit_simps)
  then have "unat (rd K (next_lo d) AND 0xFFF) = unat (ucast (take_bit 12 (next_addr K d)) :: u32)" by simp
  also have "\<dots> = take_bit 12 (unat (next_addr K d))"
    by (simp add: unsigned_ucast_eq unsigned_take_bit_eq)
  finally show ?thesis by (simp add: take_bit_eq_mod)
qed

lemma page_has_room:
  assumes "unat (x :: u64) mod 32 = 0"
  shows "unat x mod 4096 \<le> 4064"
proof -
  let ?a = "unat x mod 4096"
  have "?a mod 32 = 0" using assms by (simp add: mod_mod_cancel)
  then obtain q where q: "?a = 32 * q" by (auto simp: mod_eq_0_iff_dvd)
  have "?a < 4096" by simp
  then have "q < 128" using q by linarith
  then show ?thesis using q by simp
qed

lemma adjacent_room:
  assumes "unat (next_addr K d) mod 32 = 0"
  shows "unat (max_adj_4k K d) = (4096 - unat (next_addr K d) mod 4096) div 32 - 1"
    and "unat (next_addr K d) mod 4096 + 32 * ((4096 - unat (next_addr K d) mod 4096) div 32) \<le> 4096"
proof -
  let ?a = "unat (next_addr K d) mod 4096"
  have a: "?a \<le> 4064" by (rule page_has_room [OF assms])
  then show "unat (max_adj_4k K d) = (4096 - ?a) div 32 - 1"
    unfolding unat_max_adj_4k next_lo_page Let_def by simp
  show "?a + 32 * ((4096 - ?a) div 32) \<le> 4096"
    using a by simp
qed

lemma ready_burst_in_list:
  assumes "ready K bus j to_dev adv ep0 rc bound ds" and "k < j"
  shows "k + 1 + adj_field K (ds ! k) \<le> j" and "adj_field K (ds ! k) \<le> 15"
proof -
  have "adj_field K (ds ! k) = nat (extra_adj_of K (int j - int k) (ds ! k))"
    using assms by (simp add: ready_def)
  also have "\<dots> = nat (min (min (int j - int k - 1) 15) (int (unat (max_adj_4k K (ds ! k)))))"
    using assms(2) by (subst extra_adj_of_eq) auto
  finally show "k + 1 + adj_field K (ds ! k) \<le> j" and "adj_field K (ds ! k) \<le> 15"
    using assms(2) by auto
qed

lemma ready_burst_page:
  assumes r: "ready K bus j to_dev adv ep0 rc bound ds" and k: "k < j" and al: "unat bus mod 32 = 0"
  shows "unat (next_addr K (ds ! k)) mod 4096 + 32 * (1 + adj_field K (ds ! k)) \<le> 4096"
proof -
  let ?d = "ds ! k" and ?a = "unat (next_addr K (ds ! k)) mod 4096"
  have nx: "next_addr K ?d = bus + of_nat (Suc k) * sizeof_xdma_desc" using r k by (simp add: ready_def)
  have "next_addr K ?d = bus + of_nat (Suc k * 32)"
    unfolding nx by (simp only: sizeof_xdma_desc_def of_nat_mult) simp
  then have "unat (next_addr K ?d) = (unat bus + Suc k * 32) mod 2 ^ 64"
    by (simp only: unat_word_ariths unat_of_nat) (simp add: mod_add_right_eq)
  moreover have "(unat bus + Suc k * 32) mod 32 = 0"
    using al by presburger
  ultimately have al': "unat (next_addr K ?d) mod 32 = 0"
    by (simp add: mod_mod_cancel)
  note room = adjacent_room [OF al']
  have "adj_field K ?d = nat (extra_adj_of K (int j - int k) ?d)"
    using r k by (simp add: ready_def)
  also have "\<dots> = nat (min (min (int j - int k - 1) 15) (int (unat (max_adj_4k K ?d))))"
    using k by (subst extra_adj_of_eq) auto
  finally have "adj_field K ?d \<le> (4096 - ?a) div 32 - 1"
    unfolding room(1) by (simp add: nat_le_iff)
  moreover have "1 \<le> (4096 - ?a) div 32"
    using page_has_room [OF al'] by simp
  moreover have "1 + x \<le> r" if "x \<le> r - 1" "1 \<le> r" for x r :: nat
    using that by simp
  ultimately have "1 + adj_field K ?d \<le> (4096 - ?a) div 32" by blast
  moreover have "a + 32 * x \<le> 4096" if "x \<le> r" "a + 32 * r \<le> 4096" for a x r :: nat
    using that by linarith
  ultimately show ?thesis using room(2) by blast
qed

lemma ready_list:
  assumes r: "ready K bus j to_dev adv ep0 rc bound ds"
  shows "\<forall>d \<in> set (take (Suc j) ds). desc_magic K d"
    and "\<forall>d \<in> set (butlast (take (Suc j) ds)). ctl_byte K d = 0"
    and "ctl_byte K (last (take (Suc j) ds)) = stop_bits"
    and "next_addr K (last (take (Suc j) ds)) = 0"
proof -
  have j: "j < length ds" using r by (simp add: ready_def)
  have t: "take (Suc j) ds = take j ds @ [ds ! j]" using j by (simp add: take_Suc_conv_app_nth)
  show "\<forall>d \<in> set (take (Suc j) ds). desc_magic K d"
    using r by (auto simp: ready_def in_set_conv_nth)
  show "\<forall>d \<in> set (butlast (take (Suc j) ds)). ctl_byte K d = 0"
    using r unfolding t by (auto simp: ready_def in_set_conv_nth)
  show "ctl_byte K (last (take (Suc j) ds)) = stop_bits" "next_addr K (last (take (Suc j) ds)) = 0"
    using r unfolding t by (auto simp: ready_def)
qed

lemma terminated_adj: "byte_order_ok K \<Longrightarrow> adj_field K (terminated K d) = 0"
  by (simp add: terminated_def merge_control_reads stop_bits_low xdma_desc_link_control)

end
