(* ===== verification/Engine.thy ===== *)
theory Engine
  imports Chain
begin

text \<open>
  Driving the DMA engine through its registers: starting and stopping it, running a prepared
  transfer, and the self-test \<open>test_h2c\<close>, which builds one descriptor by hand.
\<close>

section \<open>Register access\<close>

definition write_register :: "u32 \<Rightarrow> u64 \<Rightarrow> (world, unit) prog" where
  "write_register value iomem = emit (Io (E_iowrite32 value iomem))"

definition read_register :: "kapi \<Rightarrow> u64 \<Rightarrow> (world, u32) prog" where
  "read_register K iomem = mbind (get_state (\<lambda>w. k_ioread32 K w iomem)) (\<lambda>v.
     mthen (emit (Io (E_ioread32 iomem v))) (ret v))"

text \<open>\<open>&engine_regs_h2c->f\<close> and \<open>&engine_sgdma_regs->f\<close>.\<close>

definition h2c_reg :: "string \<Rightarrow> world \<Rightarrow> u64" where
  "h2c_reg f w = reg_addr engine_regs_struct (engine_regs_h2c w) f"

definition sgdma_reg :: "string \<Rightarrow> world \<Rightarrow> u64" where
  "sgdma_reg f w = reg_addr engine_sgdma_regs_struct (engine_sgdma_regs w) f"

definition mdelay :: "nat \<Rightarrow> (world, unit) prog" where
  "mdelay n = emit (Io (E_mdelay n))"

section \<open>Starting and stopping\<close>

definition engine_start_control :: u32 where
  "engine_start_control =
     XDMA_CTRL_RUN_STOP OR XDMA_CTRL_IE_READ_ERROR OR XDMA_CTRL_IE_DESC_ERROR
       OR XDMA_CTRL_IE_DESC_ALIGN_MISMATCH OR XDMA_CTRL_IE_MAGIC_STOPPED
       OR XDMA_CTRL_IE_DESC_STOPPED"

definition engine_start :: "kapi \<Rightarrow> (world, unit) prog" where
  "engine_start K =
     mbind (get_state (h2c_reg ''control'')) (\<lambda>a.
     mthen (write_register engine_start_control a)
     (mbind (get_state (h2c_reg ''status'')) (\<lambda>a.
      mbind (read_register K a) (\<lambda>_. ret ()))))"

definition engine_stop :: "kapi \<Rightarrow> (world, unit) prog" where
  "engine_stop K =
     mbind (get_state (h2c_reg ''control'')) (\<lambda>a.
     mthen (write_register 0 a)
     (mbind (get_state (h2c_reg ''status'')) (\<lambda>a.
      mbind (read_register K a) (\<lambda>_. ret ()))))"

section \<open>Running a transfer\<close>

definition first_extra_adj :: "int \<Rightarrow> int" where
  "first_extra_adj n =
     (if n > 0 then (let extra_adj = n - 1 in if extra_adj > MAX_EXTRA_ADJ then MAX_EXTRA_ADJ else extra_adj)
      else 0)"

definition set_first_desc :: "kapi \<Rightarrow> u64 \<Rightarrow> (world, unit) prog" where
  "set_first_desc K bus =
     mbind (get_state (sgdma_reg ''first_desc_lo'')) (\<lambda>a.
     mthen (write_register (cpu_to_le32 K (ucast (PCI_DMA_L bus))) a)
     (mbind (get_state (sgdma_reg ''first_desc_hi'')) (\<lambda>a.
      write_register (cpu_to_le32 K (ucast (PCI_DMA_H bus))) a)))"

definition set_first_adjacent :: "kapi \<Rightarrow> int \<Rightarrow> (world, unit) prog" where
  "set_first_adjacent K extra_adj =
     mbind (get_state (sgdma_reg ''first_desc_adjacent'')) (\<lambda>a.
       write_register (cpu_to_le32 K (word_of_int extra_adj)) a)"

text \<open>Reading the status register, for a debug message only.\<close>

definition read_status :: "kapi \<Rightarrow> (world, unit) prog" where
  "read_status K =
     mbind (get_state (h2c_reg ''status'')) (\<lambda>a. mbind (read_register K a) (\<lambda>_. ret ()))"

text \<open>
  The statements that end both \<open>transfer_start\<close> and \<open>test_h2c\<close>: start the engine, wait,
  look at the status, stop the engine.
\<close>

definition run_engine :: "kapi \<Rightarrow> nat \<Rightarrow> (world, unit) prog" where
  "run_engine K ms =
     mthen (engine_start K) (mthen (mdelay ms) (mthen (read_status K) (engine_stop K)))"

definition transfer_start :: "kapi \<Rightarrow> u64 \<Rightarrow> xdma_transfer \<Rightarrow> (world, int) prog" where
  "transfer_start K pdev transfer =
     mthen (read_status K)
     (mthen (set_first_adjacent K (first_extra_adj (desc_adjacent transfer)))
     (mthen (set_first_desc K (desc_bus transfer))
     (mthen (run_engine K 2000)
     (ret 0))))"

section \<open>The self-test\<close>

definition alloc_coherent_data :: "kapi \<Rightarrow> u64 \<Rightarrow> u64 \<Rightarrow> (world, u64 \<times> u64) prog" where
  "alloc_coherent_data K dev sz w =
     (let (virt, bus) = k_pci_alloc_consistent K w dev sz;
          w1 = logged w [Dma (E_alloc_coherent dev sz virt bus)]
      in Inr ((virt, bus),
           if virt = 0 then w1
           else w1\<lparr>data_bufs := (data_bufs w1)(virt \<mapsto> map (k_coherent_byte K w) [0..<unat sz])\<rparr>))"

definition free_coherent_data :: "u64 \<Rightarrow> u64 \<Rightarrow> u64 \<Rightarrow> u64 \<Rightarrow> (world, unit) prog" where
  "free_coherent_data dev sz virt bus w =
     (if data_bufs w virt = None then Inl Bad_Pointer
      else Inr ((), logged (w\<lparr>data_bufs := (data_bufs w)(virt := None)\<rparr>)
        [Dma (E_free_coherent dev sz virt bus)]))"

definition at_data :: "u64 \<Rightarrow> (u8 list, 'a) prog \<Rightarrow> (world, 'a) prog" where
  "at_data p m w = (case data_bufs w p of None \<Rightarrow> Inl Bad_Pointer
     | Some xs \<Rightarrow> (case m xs of Inl c \<Rightarrow> Inl c
         | Inr (a, ys) \<Rightarrow> Inr (a, w\<lparr>data_bufs := (data_bufs w)(p \<mapsto> ys)\<rparr>)))"

definition test_data_size :: u64 where
  "test_data_size = 128"

definition zero_desc :: xdma_desc where
  "zero_desc = \<lparr>control = 0, bytes = 0, src_addr_lo = 0, src_addr_hi = 0, dst_addr_lo = 0,
     dst_addr_hi = 0, next_lo = 0, next_hi = 0\<rparr>"

text \<open>The statements that fill the descriptor in; the length is stored without conversion.\<close>

definition fill_test_desc :: "kapi \<Rightarrow> u64 \<Rightarrow> u64 \<Rightarrow> xdma_desc \<Rightarrow> xdma_desc" where
  "fill_test_desc K data_bus ep d =
     (let temp_control = DESC_MAGIC OR 0x13
      in d\<lparr>bytes := ucast test_data_size, control := cpu_to_le32 K temp_control,
           dst_addr_lo := cpu_to_le32 K (ucast (PCI_DMA_L ep)),
           dst_addr_hi := cpu_to_le32 K (ucast (PCI_DMA_H ep)),
           next_hi := 0, next_lo := 0,
           src_addr_lo := cpu_to_le32 K (ucast (PCI_DMA_L data_bus)),
           src_addr_hi := cpu_to_le32 K (ucast (PCI_DMA_H data_bus))\<rparr>)"

definition test_h2c :: "kapi \<Rightarrow> u64 \<Rightarrow> (world, int) prog" where
  "test_h2c K pdev =
     mbind (alloc_coherent_descs K pdev 1) (\<lambda>(virt, bus).
     if virt = 0 then ret 0
     else
       mthen (at_descs virt (arr_upd 0 (\<lambda>_. zero_desc)))
       (mbind (alloc_coherent_data K pdev test_data_size) (\<lambda>(data_virt, data_bus).
        mthen
          (if data_virt = 0 then ret ()
           else
             mthen (forM [0..<unat test_data_size] (\<lambda>i. at_data data_virt (arr_upd i (\<lambda>_. of_nat i))))
             (mthen (at_descs virt (arr_upd 0 (fill_test_desc K data_bus 0)))
             (mthen (set_first_desc K bus)
             (mthen (set_first_adjacent K 0)
             (mthen (run_engine K 1000)
             (free_coherent_data pdev test_data_size data_virt data_bus))))))
        (mthen (free_coherent_descs pdev 1 virt bus)
        (ret 0)))))"

section \<open>Register addresses\<close>

text \<open>The offsets of the registers the driver uses, as the XDMA core documents them.\<close>

lemma reg_offsets [simp]:
  "reg_addr engine_regs_struct b ''control'' = b + 0x04"
  "reg_addr engine_regs_struct b ''status'' = b + 0x40"
  "reg_addr engine_sgdma_regs_struct b ''first_desc_lo'' = b + 0x80"
  "reg_addr engine_sgdma_regs_struct b ''first_desc_hi'' = b + 0x84"
  "reg_addr engine_sgdma_regs_struct b ''first_desc_adjacent'' = b + 0x88"
  by (simp_all add: reg_addr_def engine_regs_struct_def engine_sgdma_regs_struct_def)

lemma reg_block_sizes:
  "struct_size engine_regs_struct = 0xDC" "struct_size engine_sgdma_regs_struct = 0x90"
  "struct_size sgdma_common_regs_struct = 0x28"
  by (simp_all add: struct_size_def engine_regs_struct_def engine_sgdma_regs_struct_def
      sgdma_common_regs_struct_def)

lemma engine_start_control_value: "engine_start_control = 0xF83E1B"
  by (simp add: engine_start_control_def XDMA_CTRL_RUN_STOP_def XDMA_CTRL_IE_READ_ERROR_def
      XDMA_CTRL_IE_DESC_ERROR_def XDMA_CTRL_IE_DESC_ALIGN_MISMATCH_def
      XDMA_CTRL_IE_MAGIC_STOPPED_def XDMA_CTRL_IE_DESC_STOPPED_def)

section \<open>What the engine is told\<close>

lemma runs_write_register [simp]:
  "runs (write_register v a) w Q = Q () (logged w [Io (E_iowrite32 v a)])"
  by (simp add: write_register_def)

lemma runs_read_register [simp]: "runs (read_register K a) w Q =
    Q (k_ioread32 K w a) (logged w [Io (E_ioread32 a (k_ioread32 K w a))])"
  by (simp add: read_register_def)

lemma runs_mdelay [simp]: "runs (mdelay n) w Q = Q () (logged w [Io (E_mdelay n)])"
  by (simp add: mdelay_def)

lemma reg_of_logged [simp]: "h2c_reg f (logged w es) = h2c_reg f w" "sgdma_reg f (logged w es) = sgdma_reg f w"
  by (simp_all add: h2c_reg_def sgdma_reg_def)

text \<open>The accesses that start, watch and stop the engine; \<open>h\<close> is the address of its registers.\<close>

definition engine_events :: "u64 \<Rightarrow> nat \<Rightarrow> u32 \<Rightarrow> u32 \<Rightarrow> u32 \<Rightarrow> event list" where
  "engine_events h ms v1 v2 v3 =
     [Io (E_iowrite32 0xF83E1B (h + 0x04)), Io (E_ioread32 (h + 0x40) v1), Io (E_mdelay ms),
      Io (E_ioread32 (h + 0x40) v2), Io (E_iowrite32 0 (h + 0x04)), Io (E_ioread32 (h + 0x40) v3)]"

definition transfer_events ::
  "kapi \<Rightarrow> u64 \<Rightarrow> u64 \<Rightarrow> u64 \<Rightarrow> int \<Rightarrow> u32 \<Rightarrow> u32 \<Rightarrow> u32 \<Rightarrow> u32 \<Rightarrow> event list" where
  "transfer_events K h s bus adj v0 v1 v2 v3 =
     [Io (E_ioread32 (h + 0x40) v0),
      Io (E_iowrite32 (cpu_to_le32 K (word_of_int (first_extra_adj adj))) (s + 0x88)),
      Io (E_iowrite32 (cpu_to_le32 K (ucast (PCI_DMA_L bus))) (s + 0x80)),
      Io (E_iowrite32 (cpu_to_le32 K (ucast (PCI_DMA_H bus))) (s + 0x84))]
     @ engine_events h 2000 v1 v2 v3"

lemmas reg_defs = h2c_reg_def sgdma_reg_def

lemma runs_run_engine:
  assumes "\<And>v1 v2 v3. Q () (logged w (engine_events (engine_regs_h2c w) ms v1 v2 v3))"
  shows "runs (run_engine K ms) w Q"
  using assms
  by (simp add: run_engine_def engine_start_def engine_stop_def read_status_def
      engine_start_control_value engine_events_def h2c_reg_def)

lemma runs_set_first [simp]:
  "runs (set_first_desc K bus) w Q = Q () (logged w
     [Io (E_iowrite32 (cpu_to_le32 K (ucast (PCI_DMA_L bus))) (engine_sgdma_regs w + 0x80)),
      Io (E_iowrite32 (cpu_to_le32 K (ucast (PCI_DMA_H bus))) (engine_sgdma_regs w + 0x84))])"
  "runs (set_first_adjacent K n) w Q = Q () (logged w
     [Io (E_iowrite32 (cpu_to_le32 K (word_of_int n)) (engine_sgdma_regs w + 0x88))])"
  by (simp_all add: set_first_desc_def set_first_adjacent_def sgdma_reg_def)

lemma transfer_start_runs:
  "runs (transfer_start K pdev t) w (\<lambda>rc w'. rc = 0 \<and> (\<exists>v0 v1 v2 v3. w' = logged w
     (transfer_events K (engine_regs_h2c w) (engine_sgdma_regs w) (desc_bus t) (desc_adjacent t) v0 v1 v2 v3)))"
  by (simp add: transfer_start_def read_status_def h2c_reg_def transfer_events_def)
    (rule runs_run_engine, simp, (rule exI)+, rule refl)

lemma first_extra_adj_bounds: "0 \<le> first_extra_adj n" "first_extra_adj n \<le> 15"
    "0 < n \<Longrightarrow> first_extra_adj n + 1 \<le> n"
  by (auto simp: first_extra_adj_def MAX_EXTRA_ADJ_def Let_def)

section \<open>The self-test leaves the memory as it was\<close>

lemma fill_test_desc_reads:
  assumes "byte_order_ok K"
  shows "src_addr K (fill_test_desc K data_bus ep d) = data_bus" "dst_addr K (fill_test_desc K data_bus ep d) = ep"
    "next_addr K (fill_test_desc K data_bus ep d) = 0" "desc_magic K (fill_test_desc K data_bus ep d)"
    "ctl_byte K (fill_test_desc K data_bus ep d) = stop_bits"
    "bytes (fill_test_desc K data_bus ep d) = 128"
  using assms
  by (simp_all add: fill_test_desc_def desc_reads desc_magic_def ctl_byte_def Let_def DESC_MAGIC_def
      LS_BYTE_MASK_def test_data_size_def stop_bits_def XDMA_DESC_STOPPED_def XDMA_DESC_EOP_def
      XDMA_DESC_COMPLETED_def)

lemma runs_at_data [simp]: "runs (at_data p m) w Q \<longleftrightarrow>
    (\<exists>xs. data_bufs w p = Some xs \<and>
      runs m xs (\<lambda>a ys. Q a (w\<lparr>data_bufs := (data_bufs w)(p \<mapsto> ys)\<rparr>)))"
  by (auto simp: runs_def at_data_def split: option.splits sum.splits prod.splits)

text \<open>The world with \<open>xs\<close> as the data buffer at \<open>p\<close>.\<close>

definition put_data :: "world \<Rightarrow> u64 \<Rightarrow> u8 list \<Rightarrow> world" where
  "put_data w p xs = w\<lparr>data_bufs := (data_bufs w)(p \<mapsto> xs)\<rparr>"

text \<open>The test pattern: byte \<open>i\<close> has the value \<open>i\<close>.\<close>

lemma runs_fill_data:
  assumes w: "data_bufs w p = Some xs" and n: "length xs = n"
    and Q: "Q () (put_data w p (map of_nat [0..<n]))"
  shows "runs (forM [0..<n] (\<lambda>i. at_data p (arr_upd i (\<lambda>_. of_nat i)))) w Q"
proof (rule runs_weaken)
  let ?J = "\<lambda>i w'. w' = put_data w p (map of_nat [0..<i] @ drop i xs)"
  show "runs (forM [0..<n] (\<lambda>i. at_data p (arr_upd i (\<lambda>_. of_nat i)))) w (\<lambda>_. ?J n)"
  proof (rule runs_forM_upt [where I = ?J])
    show "?J 0 w"
      using w by (simp add: put_data_def map_upd_triv)
  next
    fix i w'
    assume "i < n" "?J i w'"
    then show "runs (at_data p (arr_upd i (\<lambda>_. of_nat i))) w' (\<lambda>_. ?J (Suc i))"
      using n by (simp add: put_data_def list_update_append Cons_nth_drop_Suc [symmetric])
  qed simp
qed (use n Q in simp)

text \<open>The three ways \<open>test_h2c\<close> can go, as the calls it makes.\<close>

definition test_events :: "kapi \<Rightarrow> u64 \<Rightarrow> u64 \<Rightarrow> u64 \<Rightarrow> event list \<Rightarrow> bool" where
  "test_events K pdev h s es \<longleftrightarrow>
     (\<exists>bus. es = [Dma (E_alloc_coherent pdev 32 0 bus)])
     \<or> (\<exists>virt bus dbus. virt \<noteq> 0 \<and> es = [Dma (E_alloc_coherent pdev 32 virt bus),
          Dma (E_alloc_coherent pdev 128 0 dbus), Dma (E_free_coherent pdev 32 virt bus)])
     \<or> (\<exists>virt bus dvirt dbus v1 v2 v3. virt \<noteq> 0 \<and> dvirt \<noteq> 0 \<and>
          es = [Dma (E_alloc_coherent pdev 32 virt bus), Dma (E_alloc_coherent pdev 128 dvirt dbus),
            Io (E_iowrite32 (cpu_to_le32 K (ucast (PCI_DMA_L bus))) (s + 0x80)),
            Io (E_iowrite32 (cpu_to_le32 K (ucast (PCI_DMA_H bus))) (s + 0x84)),
            Io (E_iowrite32 (cpu_to_le32 K 0) (s + 0x88))]
            @ engine_events h 1000 v1 v2 v3
            @ [Dma (E_free_coherent pdev 128 dvirt dbus), Dma (E_free_coherent pdev 32 virt bus)])"

lemma runs_alloc_descs:
  assumes "\<And>virt bus. k_pci_alloc_consistent K w dev (word_of_int n * sizeof_xdma_desc) = (virt, bus) \<Longrightarrow>
    Q (virt, bus) (if virt = 0 then logged w [Dma (E_alloc_coherent dev (word_of_int n * sizeof_xdma_desc) virt bus)]
      else put_descs (logged w [Dma (E_alloc_coherent dev (word_of_int n * sizeof_xdma_desc) virt bus)]) virt
        (map (k_coherent_desc K w) [0..<nat n]))"
  shows "runs (alloc_coherent_descs K dev n) w Q"
  using assms by (cases "k_pci_alloc_consistent K w dev (word_of_int n * sizeof_xdma_desc)")
    (simp add: runs_def alloc_coherent_descs_def Let_def put_descs_def split: if_splits)

lemma runs_alloc_data:
  assumes "\<And>virt bus. k_pci_alloc_consistent K w dev sz = (virt, bus) \<Longrightarrow>
    Q (virt, bus) (if virt = 0 then logged w [Dma (E_alloc_coherent dev sz virt bus)]
      else put_data (logged w [Dma (E_alloc_coherent dev sz virt bus)]) virt (map (k_coherent_byte K w) [0..<unat sz]))"
  shows "runs (alloc_coherent_data K dev sz) w Q"
  using assms by (cases "k_pci_alloc_consistent K w dev sz")
    (simp add: runs_def alloc_coherent_data_def Let_def put_data_def split: if_splits)

definition drop_data :: "world \<Rightarrow> u64 \<Rightarrow> world" where
  "drop_data w p = w\<lparr>data_bufs := (data_bufs w)(p := None)\<rparr>"

definition drop_descs :: "world \<Rightarrow> u64 \<Rightarrow> world" where
  "drop_descs w p = w\<lparr>desc_arrs := (desc_arrs w)(p := None)\<rparr>"

lemma runs_free_data [simp]: "runs (free_coherent_data dev sz virt bus) w Q \<longleftrightarrow>
    data_bufs w virt \<noteq> None \<and> Q () (logged (drop_data w virt) [Dma (E_free_coherent dev sz virt bus)])"
  by (auto simp: runs_def free_coherent_data_def drop_data_def)

lemma runs_free_descs [simp]: "runs (free_coherent_descs dev n virt bus) w Q \<longleftrightarrow>
    desc_arrs w virt \<noteq> None \<and> Q () (logged (drop_descs w virt)
      [Dma (E_free_coherent dev (word_of_int n * sizeof_xdma_desc) virt bus)])"
  by (auto simp: runs_def free_coherent_descs_def drop_descs_def)

lemma put_data_sel [simp]:
  "data_bufs (put_data w p xs) p = Some xs" "desc_arrs (put_data w p xs) = desc_arrs w"
  "engine_regs_h2c (put_data w p xs) = engine_regs_h2c w"
  "engine_sgdma_regs (put_data w p xs) = engine_sgdma_regs w"
  "logged (put_data w p xs) es = put_data (logged w es) p xs"
  "put_data (put_data w p xs) p ys = put_data w p ys"
  "put_data (put_descs w q ds) p xs = put_descs (put_data w p xs) q ds"
  by (simp_all add: put_data_def put_descs_def logged_def)

lemma drop_put [simp]:
  "data_bufs w p = None \<Longrightarrow> drop_data (put_data w p xs) p = w"
  "desc_arrs w p = None \<Longrightarrow> drop_descs (put_descs w p ds) p = w"
  "drop_data (put_descs w q ds) p = put_descs (drop_data w p) q ds"
  by (cases w, simp add: put_data_def put_descs_def drop_data_def drop_descs_def fun_upd_idem)+

lemma test_events_intros:
  "test_events K pdev h s [Dma (E_alloc_coherent pdev 32 0 bus)]"
  "virt \<noteq> 0 \<Longrightarrow> test_events K pdev h s [Dma (E_alloc_coherent pdev 32 virt bus),
     Dma (E_alloc_coherent pdev 128 0 dbus), Dma (E_free_coherent pdev 32 virt bus)]"
  unfolding test_events_def by simp_all

lemma test_events_full:
  assumes "virt \<noteq> 0" "dvirt \<noteq> 0"
    and "es = [Dma (E_alloc_coherent pdev 32 virt bus), Dma (E_alloc_coherent pdev 128 dvirt dbus),
            Io (E_iowrite32 (cpu_to_le32 K (ucast (PCI_DMA_L bus))) (s + 0x80)),
            Io (E_iowrite32 (cpu_to_le32 K (ucast (PCI_DMA_H bus))) (s + 0x84)),
            Io (E_iowrite32 (cpu_to_le32 K 0) (s + 0x88))]
            @ engine_events h 1000 v1 v2 v3
            @ [Dma (E_free_coherent pdev 128 dvirt dbus), Dma (E_free_coherent pdev 32 virt bus)]"
  shows "test_events K pdev h s es"
  unfolding test_events_def assms(3)
  by (intro disjI2 exI conjI) (use assms(1,2) in \<open>auto\<close>)

lemma test_h2c_runs:
  assumes K: "coherent_ok K"
  shows "runs (test_h2c K pdev) w (\<lambda>rc w'. rc = 0 \<and>
    (\<exists>es. w' = logged w es \<and> test_events K pdev (engine_regs_h2c w) (engine_sgdma_regs w) es))"
proof -
  have sz: "word_of_int 1 * sizeof_xdma_desc = 32" "test_data_size = 128" "unat test_data_size = 128"
    by (simp_all add: sizeof_xdma_desc_def test_data_size_def)
  have fresh: "desc_arrs w' virt = None" "data_bufs w' virt = None"
    if "k_pci_alloc_consistent K w' dev sz = (virt, bus)" "virt \<noteq> 0" for w' dev sz virt bus
    using K that unfolding coherent_ok_def by blast+
  show ?thesis
    unfolding test_h2c_def sz runs_mbind
  proof (rule runs_alloc_descs, unfold sz, goal_cases)
    case (1 virt bus)
    show ?case
    proof (cases "virt = 0")
      case True
      then show ?thesis by (auto simp: test_events_def)
    next
      case v: False
      note fv = fresh [OF 1 v]
      show ?thesis
        using v apply simp
      proof (rule runs_alloc_data, goal_cases)
        case (1 dvirt dbus)
        show ?case
        proof (cases "dvirt = 0")
          case True
          then show ?thesis using v fv by (auto simp: sizeof_xdma_desc_def test_events_intros)
        next
          case d: False
          note fd = fresh [OF 1(2) d]
          show ?thesis
            using v d fv fd
            by (auto simp: sizeof_xdma_desc_def put_data_def [of _ _ "map _ _", symmetric]
                intro!: runs_fill_data runs_run_engine exI test_events_full [OF v d])
        qed
      qed
    qed
  qed
qed

end
