(* ===== verification/PciDevice.thy ===== *)
theory PciDevice
  imports Engine "HOL-Library.Multiset"
begin

text \<open>
  Binding the driver to the PCI device: mapping its base address registers, locating the register
  blocks in them, choosing the DMA masks, \<open>xpcie_probe\<close> and \<open>xpcie_remove\<close>.
\<close>

section \<open>Base address registers\<close>

definition XDMA_BAR_NUM :: nat where
  "XDMA_BAR_NUM = 2"

definition set_bar :: "int \<Rightarrow> u64 \<Rightarrow> (world, unit) prog" where
  "set_bar idx p w =
     (if 0 \<le> idx \<and> nat idx < length (bar w) then Inr ((), w\<lparr>bar := (bar w)[nat idx := p]\<rparr>)
      else Inl Out_Of_Bounds)"

definition get_bar :: "int \<Rightarrow> (world, u64) prog" where
  "get_bar idx w =
     (if 0 \<le> idx \<and> nat idx < length (bar w) then Inr (bar w ! nat idx, w) else Inl Out_Of_Bounds)"

definition pci_iomap :: "kapi \<Rightarrow> u64 \<Rightarrow> int \<Rightarrow> u64 \<Rightarrow> (world, u64) prog" where
  "pci_iomap K dev idx len = mbind (get_state (\<lambda>w. k_pci_iomap K w dev idx len)) (\<lambda>p.
     mthen (emit (Pci (E_iomap dev idx len p))) (ret p))"

definition map_single_bar :: "kapi \<Rightarrow> u64 \<Rightarrow> int \<Rightarrow> (world, int) prog" where
  "map_single_bar K dev idx =
     (let bar_len = k_pci_resource_len K dev idx; map_len = bar_len in
      if bar_len = 0 then ret 0
      else
        let map_len = (if bar_len > word_of_int INT_MAX then word_of_int INT_MAX else map_len) in
        mbind (pci_iomap K dev idx map_len) (\<lambda>p.
        mthen (set_bar idx p)
        (mbind (get_bar idx) (\<lambda>p. if p = 0 then ret (- 1) else ret (c_int map_len)))))"

definition unmap_bars :: "u64 \<Rightarrow> (world, unit) prog" where
  "unmap_bars dev = forM [0..<XDMA_BAR_NUM] (\<lambda>i.
     mbind (get_bar (int i)) (\<lambda>p.
     if p \<noteq> 0 then mthen (emit (Pci (E_iounmap dev p))) (set_bar (int i) 0) else ret ()))"

definition request_regions :: "kapi \<Rightarrow> u64 \<Rightarrow> (world, int) prog" where
  "request_regions K pdev = mbind (get_state (\<lambda>w. k_pci_request_regions K w pdev)) (\<lambda>rc.
     mthen (emit (Pci (E_request_regions pdev rc))) (ret rc))"

definition map_bars :: "kapi \<Rightarrow> u64 \<Rightarrow> (world, int) prog" where
  "map_bars K pdev =
     (let USER_BAR_INDEX = 0; DMA_BAR_INDEX = 1 in
      mbind (map_single_bar K pdev USER_BAR_INDEX) (\<lambda>_.
      mbind (map_single_bar K pdev DMA_BAR_INDEX) (\<lambda>_.
      mbind (get_bar DMA_BAR_INDEX) (\<lambda>b.
      mthen (modify (\<lambda>w. w\<lparr>engine_regs_h2c := b + 0 * TARGET_SPACING\<rparr>))
      (mthen (modify (\<lambda>w. w\<lparr>engine_regs_c2h := b + 1 * TARGET_SPACING\<rparr>))
      (mthen (modify (\<lambda>w. w\<lparr>engine_sgdma_regs := b + 4 * TARGET_SPACING\<rparr>))
      (mthen (modify (\<lambda>w. w\<lparr>sgdma_common_regs := b + 6 * TARGET_SPACING\<rparr>))
      (ret 0))))))))"

section \<open>DMA masks\<close>

definition pci_set_dma_mask :: "kapi \<Rightarrow> u64 \<Rightarrow> nat \<Rightarrow> (world, int) prog" where
  "pci_set_dma_mask K dev bits = mbind (get_state (\<lambda>w. k_pci_set_dma_mask K w dev bits)) (\<lambda>rc.
     mthen (emit (Pci (E_set_dma_mask dev bits rc))) (ret rc))"

definition set_dma_mask :: "kapi \<Rightarrow> u64 \<Rightarrow> (world, int) prog" where
  "set_dma_mask K pdev =
     mthen (bug_on (pdev = 0))
     (mbind (pci_set_dma_mask K pdev 64) (\<lambda>r.
      if r = 0 then mthen (emit (Pci (E_set_consistent_dma_mask pdev 32))) (ret 0)
      else mbind (pci_set_dma_mask K pdev 32) (\<lambda>r.
        if r = 0 then mthen (emit (Pci (E_set_consistent_dma_mask pdev 32))) (ret 0)
        else ret (- 1))))"

section \<open>Probe and remove\<close>

definition pci_enable_device :: "kapi \<Rightarrow> u64 \<Rightarrow> (world, int) prog" where
  "pci_enable_device K dev = mbind (get_state (\<lambda>w. k_pci_enable_device K w dev)) (\<lambda>rc.
     mthen (emit (Pci (E_enable_device dev rc))) (ret rc))"

definition xpcie_probe :: "kapi \<Rightarrow> u64 \<Rightarrow> (world, int) prog" where
  "xpcie_probe K pdev =
     mthen (modify (\<lambda>w. w\<lparr>xpcie_dev := pdev\<rparr>))
     (mbind (pci_enable_device K pdev) (\<lambda>rc.
      if rc \<noteq> 0 then ret rc
      else
        mthen (emit (Pci (E_set_master pdev)))
        (mbind (request_regions K pdev) (\<lambda>rc.
         if rc \<noteq> 0 then ret rc
         else
           mbind (map_bars K pdev) (\<lambda>_.
           mbind (set_dma_mask K pdev) (\<lambda>_.
           ret rc))))))"

definition xpcie_remove :: "u64 \<Rightarrow> (world, unit) prog" where
  "xpcie_remove pdev =
     mthen (unmap_bars pdev)
     (mthen (emit (Pci (E_release_regions pdev)))
     (emit (Pci (E_disable_device pdev))))"

section \<open>Two base address registers\<close>

lemma runs_set_bar [simp]: "runs (set_bar idx p) w Q \<longleftrightarrow>
    0 \<le> idx \<and> nat idx < length (bar w) \<and> Q () (w\<lparr>bar := (bar w)[nat idx := p]\<rparr>)"
  by (auto simp: runs_def set_bar_def)

lemma runs_get_bar [simp]: "runs (get_bar idx) w Q \<longleftrightarrow>
    0 \<le> idx \<and> nat idx < length (bar w) \<and> Q (bar w ! nat idx) w"
  by (auto simp: runs_def get_bar_def)

lemma runs_pci_iomap [simp]: "runs (pci_iomap K dev idx len) w Q =
    Q (k_pci_iomap K w dev idx len) (logged w [Pci (E_iomap dev idx len (k_pci_iomap K w dev idx len))])"
  by (simp add: pci_iomap_def)

text \<open>The length \<open>map_single_bar\<close> asks for, and what it does to the world.\<close>

definition bar_map_len :: "kapi \<Rightarrow> u64 \<Rightarrow> int \<Rightarrow> nat" where
  "bar_map_len K dev idx = min (unat (k_pci_resource_len K dev idx)) (2 ^ 31 - 1)"

definition mapped_bar :: "kapi \<Rightarrow> u64 \<Rightarrow> nat \<Rightarrow> world \<Rightarrow> world" where
  "mapped_bar K dev i w =
     (if k_pci_resource_len K dev (int i) = 0 then w
      else let len = of_nat (bar_map_len K dev (int i)); p = k_pci_iomap K w dev (int i) len
           in logged (w\<lparr>bar := (bar w)[i := p]\<rparr>) [Pci (E_iomap dev (int i) len p)])"

lemma map_single_bar_runs:
  assumes "i < length (bar w)"
  shows "runs (map_single_bar K dev (int i)) w (\<lambda>rc w'. w' = mapped_bar K dev i w
    \<and> (if k_pci_resource_len K dev (int i) = 0 then rc = 0
       else if bar w' ! i = 0 then rc = - 1 else rc = int (bar_map_len K dev (int i))))"
proof -
  let ?n = "k_pci_resource_len K dev (int i)"
  have mx: "unat (word_of_int INT_MAX :: u64) = 2 ^ 31 - 1" by (simp add: INT_MAX_def)
  have len: "(if word_of_int INT_MAX < ?n then word_of_int INT_MAX else ?n) = of_nat (bar_map_len K dev (int i))"
  proof (rule unsigned_word_eqI)
    show "unat (if word_of_int INT_MAX < ?n then word_of_int INT_MAX else ?n) = unat (of_nat (bar_map_len K dev (int i)) :: u64)"
      using mx by (auto simp: word_less_nat_alt bar_map_len_def unsigned_of_nat take_bit_nat_eq_self min_def)
  qed
  have c: "c_int (of_nat (bar_map_len K dev (int i))) = int (bar_map_len K dev (int i))"
    by (subst c_int_small) (auto simp: bar_map_len_def unsigned_of_nat take_bit_nat_eq_self)
  show ?thesis
    unfolding map_single_bar_def Let_def len
    using assms c by (auto simp: mapped_bar_def Let_def logged_def)
qed

definition located :: "world \<Rightarrow> world" where
  "located w = w\<lparr>engine_regs_h2c := bar w ! 1, engine_regs_c2h := bar w ! 1 + TARGET_SPACING,
     engine_sgdma_regs := bar w ! 1 + 4 * TARGET_SPACING, sgdma_common_regs := bar w ! 1 + 6 * TARGET_SPACING\<rparr>"

lemma length_mapped_bar [simp]: "length (bar (mapped_bar K dev i w)) = length (bar w)"
  by (simp add: mapped_bar_def Let_def)

lemma map_bars_runs:
  assumes "length (bar w) = 2"
  shows "runs (map_bars K dev) w (\<lambda>rc w'. rc = 0 \<and> w' = located (mapped_bar K dev 1 (mapped_bar K dev 0 w)))"
proof -
  have m: "runs (map_single_bar K dev (int i)) w (\<lambda>_ w'. w' = mapped_bar K dev i w)" if "length (bar w) = 2" "i < 2" for i w
    using that by (intro runs_weaken [OF map_single_bar_runs]) auto
  show ?thesis
    unfolding map_bars_def Let_def runs_mbind
    using assms by (intro runs_weaken [OF m [of w 0, simplified]] runs_weaken [OF m [of _ 1, simplified]])
      (auto simp: located_def)
qed

text \<open>The events and the bars after unmapping.\<close>

definition unmap_events :: "u64 \<Rightarrow> u64 list \<Rightarrow> event list" where
  "unmap_events dev ps = map (\<lambda>p. Pci (E_iounmap dev p)) (filter (\<lambda>p. p \<noteq> 0) ps)"

lemma unmap_bars_runs:
  assumes "length (bar w) = 2"
  shows "runs (unmap_bars dev) w Q = Q () (logged (w\<lparr>bar := [0, 0]\<rparr>) (unmap_events dev (bar w)))"
proof -
  obtain a b where ab: "bar w = [a, b]"
    using assms by (cases "bar w"; cases "tl (bar w)") auto
  show ?thesis
    using ab
    by (cases "a = 0"; cases "b = 0"; cases w)
      (simp_all add: unmap_bars_def XDMA_BAR_NUM_def numeral_2_eq_2 unmap_events_def logged_def)
qed

section \<open>DMA masks: at most two attempts\<close>

definition mask_events :: "u64 \<Rightarrow> int \<Rightarrow> event list \<Rightarrow> bool" where
  "mask_events dev rc es \<longleftrightarrow>
     (\<exists>bits r. es = [Pci (E_set_dma_mask dev 64 0), Pci (E_set_consistent_dma_mask dev 32)] \<and> rc = 0
      \<or> r \<noteq> 0 \<and> es = [Pci (E_set_dma_mask dev 64 r), Pci (E_set_dma_mask dev 32 0), Pci (E_set_consistent_dma_mask dev 32)]
          \<and> rc = 0
      \<or> r \<noteq> 0 \<and> bits \<noteq> 0 \<and> es = [Pci (E_set_dma_mask dev 64 r), Pci (E_set_dma_mask dev 32 bits)] \<and> rc = - 1)"

lemma set_dma_mask_runs:
  assumes "pdev \<noteq> 0"
  shows "runs (set_dma_mask K pdev) w (\<lambda>rc w'. \<exists>es. w' = logged w es \<and> mask_events pdev rc es)"
  using assms by (auto simp: set_dma_mask_def pci_set_dma_mask_def mask_events_def)

section \<open>Outcomes of probe and remove\<close>

definition probe_outcome :: "kapi \<Rightarrow> u64 \<Rightarrow> world \<Rightarrow> int \<Rightarrow> world \<Rightarrow> bool" where
  "probe_outcome K dev w rc w' \<longleftrightarrow> (let w1 = w\<lparr>xpcie_dev := dev\<rparr> in
     (rc \<noteq> 0 \<and> w' = logged w1 [Pci (E_enable_device dev rc)])
     \<or> (rc \<noteq> 0 \<and> w' = logged w1 [Pci (E_enable_device dev 0), Pci (E_set_master dev), Pci (E_request_regions dev rc)])
     \<or> (rc = 0 \<and> (\<exists>mrc es. mask_events dev mrc es \<and>
          w' = logged (located (mapped_bar K dev 1 (mapped_bar K dev 0 (logged w1
            [Pci (E_enable_device dev 0), Pci (E_set_master dev), Pci (E_request_regions dev 0)])))) es)))"

lemma xpcie_probe_runs:
  assumes "length (bar w) = 2" and "pdev \<noteq> 0"
  shows "runs (xpcie_probe K pdev) w (probe_outcome K pdev w)"
proof -
  let ?w3 = "logged (w\<lparr>xpcie_dev := pdev\<rparr>) [Pci (E_enable_device pdev 0), Pci (E_set_master pdev)]"
  let ?w4 = "logged (w\<lparr>xpcie_dev := pdev\<rparr>) [Pci (E_enable_device pdev 0), Pci (E_set_master pdev), Pci (E_request_regions pdev 0)]"
  have tail: "runs (map_bars K pdev) ?w4 (\<lambda>_ w1. runs (set_dma_mask K pdev) w1 (\<lambda>_. probe_outcome K pdev w 0))"
    using assms by (intro runs_weaken [OF map_bars_runs] runs_weaken [OF set_dma_mask_runs])
      (auto simp: probe_outcome_def Let_def)
  show ?thesis
    using tail by (auto simp: xpcie_probe_def pci_enable_device_def request_regions_def)
      (auto simp: probe_outcome_def Let_def)
qed

lemma xpcie_remove_runs:
  assumes "length (bar w) = 2"
  shows "runs (xpcie_remove pdev) w Q = Q () (logged (w\<lparr>bar := [0, 0]\<rparr>)
    (unmap_events pdev (bar w) @ [Pci (E_release_regions pdev), Pci (E_disable_device pdev)]))"
  using assms by (simp add: xpcie_remove_def unmap_bars_runs)

section \<open>Mappings are not lost\<close>

text \<open>The mappings a trace has made and not undone.\<close>

fun iomaps :: "event list \<Rightarrow> u64 list" where
  "iomaps [] = []"
| "iomaps (Pci (E_iomap dev i n p) # es) = (if p = 0 then iomaps es else p # iomaps es)"
| "iomaps (e # es) = iomaps es"

fun iounmaps :: "event list \<Rightarrow> u64 list" where
  "iounmaps [] = []"
| "iounmaps (Pci (E_iounmap dev p) # es) = p # iounmaps es"
| "iounmaps (e # es) = iounmaps es"

lemma iomaps_append [simp]: "iomaps (xs @ ys) = iomaps xs @ iomaps ys"
  by (induction xs rule: iomaps.induct) auto

lemma iounmaps_append [simp]: "iounmaps (xs @ ys) = iounmaps xs @ iounmaps ys"
  by (induction xs rule: iounmaps.induct) auto

definition bars_balanced :: "world \<Rightarrow> bool" where
  "bars_balanced w \<longleftrightarrow> length (bar w) = 2 \<and>
     mset (iomaps (trace w)) = mset (iounmaps (trace w)) + mset (filter (\<lambda>p. p \<noteq> 0) (bar w))"

lemma unmap_events_maps [simp]:
  "iomaps (unmap_events dev ps) = []" "iounmaps (unmap_events dev ps) = filter (\<lambda>p. p \<noteq> 0) ps"
  by (induction ps) (auto simp: unmap_events_def)

lemma mask_events_maps [simp]: "mask_events dev rc es \<Longrightarrow> iomaps es = [] \<and> iounmaps es = []"
  by (auto simp: mask_events_def)

lemma remove_balanced:
  assumes "bars_balanced w"
  shows "runs (xpcie_remove pdev) w (\<lambda>_ w'. bars_balanced w' \<and> bar w' = [0, 0])"
  using assms by (simp add: xpcie_remove_runs bars_balanced_def)

lemma mapped_bar_trace:
  assumes "i < length (bar w)"
  shows "\<exists>es. trace (mapped_bar K dev i w) = trace w @ es \<and> iounmaps es = [] \<and> length (iomaps es) \<le> 1
    \<and> (bar w ! i = 0 \<longrightarrow> iomaps es = filter (\<lambda>p. p \<noteq> 0) [bar (mapped_bar K dev i w) ! i])"
  using assms by (auto simp: mapped_bar_def Let_def)

lemma bar_mapped_bar: "k \<noteq> i \<Longrightarrow> bar (mapped_bar K dev i w) ! k = bar w ! k"
  by (simp add: mapped_bar_def Let_def)

lemma located_sel [simp]: "bar (located w) = bar w" "trace (located w) = trace w"
  by (simp_all add: located_def)

text \<open>What a probe that succeeds has done, after the three steps that can make it fail.\<close>

definition probe_events :: "u64 \<Rightarrow> event list" where
  "probe_events pdev = [Pci (E_enable_device pdev 0), Pci (E_set_master pdev), Pci (E_request_regions pdev 0)]"

lemma probe_success:
  assumes o: "probe_outcome K pdev w 0 w'" and l: "length (bar w) = 2"
  obtains es where "trace w' = trace w @ probe_events pdev @ es" "iounmaps es = []" "length (iomaps es) \<le> 2"
    "length (bar w') = 2" "bar w = [0, 0] \<longrightarrow> iomaps es = filter (\<lambda>p. p \<noteq> 0) (bar w')" "xpcie_dev w' = pdev"
    "engine_regs_h2c w' = bar w' ! 1" "engine_sgdma_regs w' = bar w' ! 1 + 0x4000"
proof -
  let ?w4 = "logged (w\<lparr>xpcie_dev := pdev\<rparr>) (probe_events pdev)"
  define a where "a = mapped_bar K pdev 0 ?w4"
  define b where "b = mapped_bar K pdev 1 a"
  from o obtain mrc es where es: "mask_events pdev mrc es" "w' = logged (located b) es"
    by (auto simp: probe_outcome_def Let_def a_def b_def probe_events_def)
  have la: "length (bar a) = 2" "bar a ! 1 = bar w ! 1" using l by (simp_all add: a_def bar_mapped_bar)
  define x where "x = bar a ! 0"
  define y where "y = bar b ! 1"
  have lb: "bar b = [x, y]"
    using la by (intro nth_equalityI) (auto simp: b_def x_def y_def bar_mapped_bar less_2_cases_iff)
  obtain ea where ea: "trace a = trace w @ probe_events pdev @ ea" "iounmaps ea = []" "length (iomaps ea) \<le> 1"
    "bar w ! 0 = 0 \<longrightarrow> iomaps ea = filter (\<lambda>p. p \<noteq> 0) [x]"
    unfolding a_def x_def using mapped_bar_trace [of 0 ?w4 K pdev] l by auto
  obtain eb where eb: "trace b = trace a @ eb" "iounmaps eb = []" "length (iomaps eb) \<le> 1"
    "bar a ! 1 = 0 \<longrightarrow> iomaps eb = filter (\<lambda>p. p \<noteq> 0) [y]"
    unfolding b_def y_def using mapped_bar_trace [of 1 a K pdev] la by auto
  have m: "iomaps es = []" "iounmaps es = []" using mask_events_maps [OF es(1)] by auto
  show ?thesis
  proof (rule that [of "ea @ eb @ es"])
    show "bar w = [0, 0] \<longrightarrow> iomaps (ea @ eb @ es) = filter (\<lambda>p. p \<noteq> 0) (bar w')"
      using ea(4) eb(4) la by (subst es(2)) (simp add: m lb)
    show "xpcie_dev w' = pdev" by (simp add: es(2) located_def a_def b_def mapped_bar_def Let_def)
  qed (use ea eb m lb in \<open>auto simp: es(2) located_def TARGET_SPACING_def\<close>)
qed

lemma probe_balanced:
  assumes b: "bars_balanced w" "bar w = [0, 0]" and dev: "pdev \<noteq> 0"
  shows "runs (xpcie_probe K pdev) w (\<lambda>rc w'. bars_balanced w' \<and> (rc \<noteq> 0 \<longrightarrow> bar w' = [0, 0]))"
proof (rule runs_weaken [OF xpcie_probe_runs])
  fix rc w'
  assume o: "probe_outcome K pdev w rc w'"
  show "bars_balanced w' \<and> (rc \<noteq> 0 \<longrightarrow> bar w' = [0, 0])"
  proof (cases "rc = 0")
    case True
    then show ?thesis
      using o b by (auto elim!: probe_success simp: bars_balanced_def probe_events_def)
  qed (use o b in \<open>auto simp: probe_outcome_def Let_def bars_balanced_def\<close>)
qed (use b dev in auto)

end
