(* ===== verification/SgMapper.thy ===== *)
theory SgMapper
  imports Kernel
begin

text \<open>
  The scatter-gather mapper of \<^verbatim>\<open>driver/xpcie.c\<close>: creating and destroying a mapper,
  pinning the pages of a user buffer (\<open>sgm_get_user_pages\<close>) or collecting those of a
  vmalloc()ed one (\<open>sgm_kernel_pages\<close>), building the scatter list, and releasing the pages.
\<close>

section \<open>Kernel calls on mapper objects\<close>

definition sg_init_table :: "kapi \<Rightarrow> u64 \<Rightarrow> int \<Rightarrow> (world, unit) prog" where
  "sg_init_table K l n = at_sgl l (\<lambda>xs.
     if 1 \<le> n \<and> n \<le> int (length xs) then Inr ((), k_sg_init_table K xs (nat n))
     else Inl Out_Of_Bounds)"

definition get_user_pages_fast ::
  "kapi \<Rightarrow> u64 \<Rightarrow> int \<Rightarrow> bool \<Rightarrow> u64 \<Rightarrow> (world, int) prog" where
  "get_user_pages_fast K start nr wr p = mbind (get_state (\<lambda>w. k_get_user_pages_fast K w start nr wr))
     (\<lambda>(rc, ps). mthen (emit (Mem (E_get_user_pages start nr wr ps)))
       (mthen (at_pages p (\<lambda>xs. if length ps \<le> length xs
            then Inr ((), ps @ drop (length ps) xs) else Inl Out_Of_Bounds))
        (ret rc)))"

text \<open>The page pointer in element \<open>i\<close> of the array at \<open>p\<close>.\<close>

definition page_at :: "u64 \<Rightarrow> nat \<Rightarrow> (world, u64) prog" where
  "page_at p i = mbind (read_pages p) (\<lambda>ps. arr_read ps i)"

section \<open>Creating and destroying a mapper\<close>

definition sg_create_mapper :: "kapi \<Rightarrow> u64 \<Rightarrow> (world, u64) prog" where
  "sg_create_mapper K max_len =
     (if max_len = 0 then ret 0
      else mbind (kcalloc_sgm K) (\<lambda>m.
        if m = 0 then ret 0
        else
          mthen (sgm_upd m (\<lambda>s. s\<lparr>max_pages := c_int (max_len div PAGE_SIZE + 2)\<rparr>))
          (mbind (sgm_get m) (\<lambda>s.
           mbind (kcalloc_pages K (word_of_int (max_pages s))) (\<lambda>p.
           mthen (sgm_upd m (\<lambda>s. s\<lparr>pages := p\<rparr>))
           (if p = 0 then mthen (kfree m) (ret 0)
            else
              mbind (kcalloc_sgl K (word_of_int (max_pages s))) (\<lambda>l.
              mthen (sgm_upd m (\<lambda>s. s\<lparr>sgl := l\<rparr>))
              (if l = 0 then mthen (kfree p) (mthen (kfree m) (ret 0))
               else mthen (sg_init_table K l (max_pages s)) (ret m)))))))))"

definition sg_destroy_mapper :: "u64 \<Rightarrow> (world, unit) prog" where
  "sg_destroy_mapper m =
     mbind (sgm_get m) (\<lambda>s.
       mthen (bug_on (mapped_pages s > 0))
       (mthen (kfree (sgl s))
       (mthen (kfree (pages s))
       (kfree m))))"

section \<open>Filling the scatter list\<close>

text \<open>
  The part of \<open>sgm_get_user_pages\<close> and of \<open>sgm_kernel_pages\<close> that turns the page
  array \<open>ps\<close> into the first \<open>nr_pages\<close> entries of the scatter list. The two functions
  contain the same statements. The state is the scatter list.
\<close>

definition fill_middle :: "kapi \<Rightarrow> u64 list \<Rightarrow> nat \<Rightarrow> u64 \<Rightarrow> (scatterlist list, u64) prog" where
  "fill_middle K ps i count =
     mthen (bug_on (count < PAGE_SIZE))
     (mbind (arr_read ps i) (\<lambda>pg.
      mthen (arr_upd i (\<lambda>e. k_sg_set_page K e pg (ucast PAGE_SIZE) 0))
      (ret (count - PAGE_SIZE))))"

definition fill_sgl :: "kapi \<Rightarrow> u64 list \<Rightarrow> u64 \<Rightarrow> u64 \<Rightarrow> int \<Rightarrow> (scatterlist list, unit) prog" where
  "fill_sgl K ps start count nr_pages =
     mbind (arr_read ps 0) (\<lambda>pg.
     mthen (arr_upd 0 (\<lambda>e. k_sg_set_page K e pg 0 (offset_in_page start)))
     (if nr_pages > 1 then
        mthen (arr_upd 0 (\<lambda>e. e\<lparr>sg_len := ucast (PAGE_SIZE - ucast (offset e))\<rparr>))
        (mbind (get_state (\<lambda>l. count - ucast (sg_len (l ! 0)))) (\<lambda>count.
         mbind (foldM (fill_middle K ps) [1..<nat (nr_pages - 1)] count) (\<lambda>count.
         mthen (bug_on (count > PAGE_SIZE))
         (mbind (arr_read ps (nat (nr_pages - 1))) (\<lambda>pg.
          arr_upd (nat (nr_pages - 1)) (\<lambda>e. k_sg_set_page K e pg (ucast count) 0))))))
      else arr_upd 0 (\<lambda>e. e\<lparr>sg_len := ucast count\<rparr>)))"

section \<open>Pinning user pages\<close>

text \<open>The number of pages a buffer touches, as the code computes it: \<open>last - first + 1\<close>.\<close>

definition nr_pages_of :: "u64 \<Rightarrow> u64 \<Rightarrow> int" where
  "nr_pages_of start count =
     (let first = page_frame start; last = page_frame (start + count - 1)
      in c_int (last - first + 1))"

text \<open>The \<open>out_unmap\<close> exit: release what was pinned and fail.\<close>

definition out_unmap :: "u64 \<Rightarrow> (world, int) prog" where
  "out_unmap m =
     mbind (sgm_get m) (\<lambda>s.
     mthen (forM [0..<nat (mapped_pages s)] (\<lambda>i.
       mbind (page_at (pages s) i) (\<lambda>pg. emit (Mem (E_put_page pg)))))
     (mthen (sgm_upd m (\<lambda>s. s\<lparr>mapped_pages := 0\<rparr>))
     (ret (- ENOMEM))))"

definition flush_pages :: "u64 \<Rightarrow> int \<Rightarrow> (world, unit) prog" where
  "flush_pages p nr_pages = forM [0..<nat nr_pages] (\<lambda>i.
     mbind (page_at p i) (\<lambda>pg. emit (Mem (E_flush_dcache_page pg))))"

definition sgm_get_user_pages ::
  "kapi \<Rightarrow> u64 \<Rightarrow> u64 \<Rightarrow> u64 \<Rightarrow> int \<Rightarrow> (world, int) prog" where
  "sgm_get_user_pages K m start count to_dev =
     (let nr_pages = nr_pages_of start count in
      mbind (sgm_get m) (\<lambda>s.
      mthen (sg_init_table K (sgl s) nr_pages)
      (mthen (forM [0..<nat (nr_pages - 1)] (\<lambda>i. at_pages (pages s) (arr_upd i (\<lambda>_. 0))))
      (mbind (get_user_pages_fast K start nr_pages (to_dev = 0) (pages s)) (\<lambda>rc.
       if rc < nr_pages then
         mthen (if rc > 0 then sgm_upd m (\<lambda>s. s\<lparr>mapped_pages := rc\<rparr>) else ret ())
         (out_unmap m)
       else
         mthen (bug_on (rc \<noteq> nr_pages))
         (mthen (sgm_upd m (\<lambda>s. s\<lparr>mapped_pages := rc\<rparr>))
         (mthen (flush_pages (pages s) nr_pages)
         (mbind (read_pages (pages s)) (\<lambda>ps.
          mthen (at_sgl (sgl s) (fill_sgl K ps start count nr_pages))
          (ret nr_pages))))))))))"

section \<open>Releasing user pages\<close>

definition sgm_dirty_pages :: "u64 \<Rightarrow> (world, unit) prog" where
  "sgm_dirty_pages m =
     mbind (sgm_get m) (\<lambda>s. forM [0..<nat (mapped_pages s)] (\<lambda>i.
       mbind (page_at (pages s) i) (\<lambda>pg. emit (Mem (E_set_page_dirty pg)))))"

definition sgm_put_user_pages :: "u64 \<Rightarrow> int \<Rightarrow> (world, int) prog" where
  "sgm_put_user_pages m to_dev =
     mthen (if to_dev = 0 then sgm_dirty_pages m else ret ())
     (mbind (sgm_get m) (\<lambda>s.
      mthen (forM [0..<nat (mapped_pages s)] (\<lambda>i.
        mbind (page_at (pages s) i) (\<lambda>pg. emit (Mem (E_put_page pg)))))
      (mthen (sgm_upd m (\<lambda>s. s\<lparr>mapped_pages := 0\<rparr>))
      (ret 0))))"

section \<open>Kernel buffers\<close>

text \<open>
  The loop that looks the pages of a vmalloc()ed buffer up: \<open>True\<close> if it got through,
  \<open>False\<close> for the \<open>goto err\<close>.
\<close>

fun vmalloc_pages :: "kapi \<Rightarrow> nat \<Rightarrow> u64 \<Rightarrow> nat \<Rightarrow> (u64 list, bool) prog" where
  "vmalloc_pages K i virt 0 = ret True"
| "vmalloc_pages K i virt (Suc n) =
     (let pg = k_vmalloc_to_page K virt in
      mthen (arr_upd i (\<lambda>_. pg))
      (if pg = 0 then ret False
       else mthen (bug_on (k_PageHighMem K pg)) (vmalloc_pages K (Suc i) (virt + PAGE_SIZE) n)))"

definition sgm_kernel_pages ::
  "kapi \<Rightarrow> u64 \<Rightarrow> u64 \<Rightarrow> u64 \<Rightarrow> int \<Rightarrow> (world, int) prog" where
  "sgm_kernel_pages K m start count to_user =
     (let nr_pages = nr_pages_of start count in
      mbind (sgm_get m) (\<lambda>s.
      mthen (bug_on (mapped_pages s > 0))
      (if start + count < start then ret (- EINVAL)
       else if nr_pages > max_pages s then ret (- EINVAL)
       else if count = 0 then ret 0
       else
         mthen (sg_init_table K (sgl s) nr_pages)
         (mbind (at_pages (pages s) (vmalloc_pages K 0 start (nat nr_pages))) (\<lambda>ok.
          if \<not> ok then
            mthen (sgm_upd m (\<lambda>s. s\<lparr>mapped_pages := 0\<rparr>)) (ret (- ENOMEM))
          else
            mthen (sgm_upd m (\<lambda>s. s\<lparr>mapped_pages := nr_pages\<rparr>))
            (mthen (flush_pages (pages s) nr_pages)
            (mbind (read_pages (pages s)) (\<lambda>ps.
             mthen (at_sgl (sgl s) (fill_sgl K ps start count nr_pages))
             (ret nr_pages)))))))))"

section \<open>The number of pages\<close>

lemma nr_pages_of_eq:
  assumes "count \<noteq> 0" and "unat start + unat count \<le> 2 ^ 64" and "unat count \<le> 2 ^ 42"
  shows "nr_pages_of start count = int ((unat start mod 4096 + unat count - 1) div 4096 + 1)"
proof -
  let ?f = "page_frame start" and ?l = "page_frame (start + count - 1)"
  have pos: "0 < unat count" using assms(1) by (simp add: unat_gt_0)
  have l: "unat ?l = (unat start + unat count - 1) div 4096"
    using assms by (simp add: unat_page_frame unat_add_minus_one)
  have f: "unat ?f = unat start div 4096"
    by (simp add: unat_page_frame)
  have split: "(unat start + unat count - 1) div 4096
      = unat start div 4096 + (unat start mod 4096 + unat count - 1) div 4096"
  proof -
    have "unat start + unat count - 1 = 4096 * (unat start div 4096) + (unat start mod 4096 + unat count - 1)"
      using pos by (simp add: mult.commute) 
    then show ?thesis by simp
  qed
  have small: "(unat start mod 4096 + unat count - 1) div 4096 \<le> 2 ^ 30"
  proof -
    have "unat start mod 4096 < 4096" by simp
    then have "unat start mod 4096 + unat count - 1 < 1073741825 * 4096"
      using assms(3) by simp
    then show ?thesis by simp
  qed
  have "?f \<le> ?l"
    unfolding word_le_nat_alt f l split by simp
  then have d: "unat (?l - ?f) = (unat start mod 4096 + unat count - 1) div 4096"
    unfolding unat_sub [OF \<open>?f \<le> ?l\<close>] f l split by simp
  then have "unat (?l - ?f + 1) = (unat start mod 4096 + unat count - 1) div 4096 + 1"
    using small by (subst unat_add_lem [THEN iffD1]) auto
  with small show ?thesis
    by (simp add: nr_pages_of_def Let_def c_int_small)
qed
section \<open>What a scatter list describes\<close>

text \<open>
  The bytes of a buffer of \<open>n\<close> bytes that starts at offset \<open>off\<close> of the first of the
  pages \<open>ps\<close>, in order, each as a page and an offset in that page; and the bytes that the
  entries of a scatter list describe.
\<close>

definition buffer_slots :: "u64 list \<Rightarrow> nat \<Rightarrow> nat \<Rightarrow> (u64 \<times> nat) list" where
  "buffer_slots ps off n = map (\<lambda>k. (ps ! ((off + k) div 4096), (off + k) mod 4096)) [0..<n]"

definition entry_slots :: "scatterlist \<Rightarrow> (u64 \<times> nat) list" where
  "entry_slots e = map (\<lambda>k. (page_link e, unat (offset e) + k)) [0..<unat (sg_len e)]"

definition sgl_slots :: "scatterlist list \<Rightarrow> (u64 \<times> nat) list" where
  "sgl_slots l = concat (map entry_slots l)"

definition within_page :: "scatterlist \<Rightarrow> bool" where
  "within_page e \<longleftrightarrow> unat (offset e) + unat (sg_len e) \<le> 4096"

lemma sgl_slots_simps [simp]:
  "sgl_slots [] = []" "sgl_slots (e # l) = entry_slots e @ sgl_slots l"
  "sgl_slots (l @ l') = sgl_slots l @ sgl_slots l'"
  by (simp_all add: sgl_slots_def)

lemma buffer_slots_first:
  assumes "off + n \<le> 4096"
  shows "buffer_slots ps off n = map (\<lambda>k. (ps ! 0, off + k)) [0..<n]"
  using assms by (auto simp: buffer_slots_def)

lemma buffer_slots_page:
  assumes "off + t = 4096 * i" and "m \<le> 4096"
  shows "buffer_slots ps off (t + m) = buffer_slots ps off t @ map (\<lambda>k. (ps ! i, k)) [0..<m]"
proof -
  have "(off + (t + k)) div 4096 = i \<and> (off + (t + k)) mod 4096 = k" if "k < m" for k
  proof -
    have e: "off + (t + k) = 4096 * i + k" using assms(1) by simp
    show ?thesis unfolding e using that assms(2) by simp
  qed
  then show ?thesis
    unfolding buffer_slots_def map_upt_add by simp
qed

text \<open>The first \<open>i\<close> entries of \<open>l\<close> describe the first \<open>n\<close> bytes of the buffer.\<close>

definition filled :: "u64 list \<Rightarrow> nat \<Rightarrow> nat \<Rightarrow> nat \<Rightarrow> scatterlist list \<Rightarrow> bool" where
  "filled ps off i n l \<longleftrightarrow> sgl_slots (take i l) = buffer_slots ps off n
     \<and> (\<forall>e \<in> set (take i l). within_page e)"

lemma filled_page:
  assumes "filled ps off i t l" and "off + t = 4096 * i" and "i < length l"
    and "page_link e = ps ! i" and "offset e = 0" and "unat (sg_len e) = m" and "m \<le> 4096"
  shows "filled ps off (Suc i) (t + m) (l[i := e])"
  using assms
  by (simp add: filled_def take_Suc_update buffer_slots_page entry_slots_def within_page_def
      ball_Un)

text \<open>The loop invariant: \<open>t\<close> bytes are described by the first \<open>i\<close> entries, \<open>c\<close> are left.\<close>

definition fill_inv ::
  "u64 list \<Rightarrow> nat \<Rightarrow> nat \<Rightarrow> nat \<Rightarrow> nat \<Rightarrow> u64 \<Rightarrow> scatterlist list \<Rightarrow> bool" where
  "fill_inv ps off n len i c l \<longleftrightarrow> length l = len
     \<and> (\<exists>t. off + t = 4096 * i \<and> unat c + t = n \<and> filled ps off i t l)"

lemma fill_middle_runs:
  assumes K: "sg_api_ok K" and i: "i < length ps" "i < len"
    and room: "4096 * Suc i \<le> off + n" and inv: "fill_inv ps off n len i c l"
  shows "runs (fill_middle K ps i c) l (fill_inv ps off n len (Suc i))"
proof -
  from inv obtain t where t: "off + t = 4096 * i" "unat c + t = n" "filled ps off i t l"
    and l: "length l = len"
    by (auto simp: fill_inv_def)
  have ge: "PAGE_SIZE \<le> c"
    using t room by simp
  have c': "unat (c - PAGE_SIZE) + (t + 4096) = n"
    using t room ge by (simp add: unat_sub)
  have len: "unat (ucast PAGE_SIZE :: u32) = 4096" by (simp add: PAGE_SIZE_def)
  have "filled ps off (Suc i) (t + 4096)
      (l[i := k_sg_set_page K (l ! i) (ps ! i) (ucast PAGE_SIZE) 0])"
    using K t i l len by (intro filled_page) (auto simp: sg_api_ok_def)
  then have "fill_inv ps off n len (Suc i) (c - PAGE_SIZE)
      (l[i := k_sg_set_page K (l ! i) (ps ! i) (ucast PAGE_SIZE) 0])"
    unfolding fill_inv_def using c' t(1) l
    by (intro conjI exI [where x = "t + 4096"]) auto
  then show ?thesis
    using ge i l by (simp add: fill_middle_def)
qed

lemma fill_sgl_single:
  assumes K: "sg_api_ok K" and n: "unat count = n" and off: "off = unat start mod 4096"
    and one: "off + n \<le> 4096" and len: "ps \<noteq> []" "l \<noteq> []"
  shows "runs (fill_sgl K ps start count 1) l (\<lambda>_ l'. length l' = length l \<and> filled ps off 1 n l')"
proof -
  have c: "unat (ucast count :: u32) = n"
    using one n by (simp add: unsigned_ucast_eq take_bit_nat_eq_self)
  from len obtain e l1 where l: "l = e # l1" by (cases l) auto
  show ?thesis
    using K len one off c
    by (auto simp: fill_sgl_def l sg_api_ok_def filled_def entry_slots_def within_page_def
        buffer_slots_first unat_offset_in_page)
qed

lemma fill_sgl_multi:
  assumes K: "sg_api_ok K" and n: "unat count = n" and off: "off = unat start mod 4096"
    and N: "N = (off + n - 1) div 4096 + 1" "1 < N" and len: "N \<le> length ps" "N \<le> length l"
  shows "runs (fill_sgl K ps start count (int N)) l
    (\<lambda>_ l'. length l' = length l \<and> filled ps off N n l')"
proof -
  have o4: "off < 4096" using off by simp
  have up: "off + n \<le> 4096 * N" and low: "4096 * (N - 1) < off + n"
    using N by linarith+
  define e0 where "e0 = (k_sg_set_page K (l ! 0) (ps ! 0) 0 (offset_in_page start))
     \<lparr>sg_len := ucast (PAGE_SIZE - ucast (offset_in_page start))\<rparr>"
  have oip: "unat (PAGE_SIZE - ucast (offset_in_page start)) = 4096 - off"
    using o4 by (subst unat_sub)
      (simp_all add: word_le_nat_alt unat_offset_in_page off)
  have e0: "page_link e0 = ps ! 0" "unat (offset e0) = off" "unat (sg_len e0) = 4096 - off"
    using K oip o4
    by (auto simp: e0_def sg_api_ok_def unat_offset_in_page off unat_ucast_down)
  have inv1: "fill_inv ps off n (length l) 1 (count - ucast (sg_len e0)) (l[0 := e0])"
  proof -
    have "ucast (sg_len e0) \<le> count"
      using low N(2) e0 n by (simp add: word_le_nat_alt)
    then have "unat (count - ucast (sg_len e0)) + (4096 - off) = n"
      using e0 n low N(2) by (simp add: unat_sub)
    moreover have "filled ps off 1 (4096 - off) (l[0 := e0])"
      using e0 o4 len N(2) by (cases l)
        (auto simp: filled_def buffer_slots_first entry_slots_def within_page_def)
    ultimately show ?thesis
      unfolding fill_inv_def using o4 by (intro conjI exI [where x = "4096 - off"]) auto
  qed
  have loop: "runs (foldM (fill_middle K ps) [1..<N - 1] c) l1 (fill_inv ps off n (length l) (N - 1))"
    if "fill_inv ps off n (length l) 1 c l1" for c l1
  proof (rule runs_foldM_upt)
    fix i c' l2
    assume i: "1 \<le> i" "i < N - 1" and inv: "fill_inv ps off n (length l) i c' l2"
    have "4096 * Suc i \<le> 4096 * (N - 1)" using i by (intro mult_le_mono2) simp
    then have "4096 * Suc i \<le> off + n" using low by linarith
    with i inv K len show "runs (fill_middle K ps i c') l2 (fill_inv ps off n (length l) (Suc i))"
      by (intro fill_middle_runs) auto
  qed (use that N(2) in auto)
  have last: "\<not> PAGE_SIZE < c \<and> N - 1 < length l2 \<and> length l2 = length l \<and> filled ps off N n
      (l2[N - 1 := k_sg_set_page K (l2 ! (N - 1)) (ps ! (N - 1)) (ucast c) 0])"
    if "fill_inv ps off n (length l) (N - 1) c l2" for c l2
  proof -
    from that obtain t where t: "off + t = 4096 * (N - 1)" "unat c + t = n"
        "filled ps off (N - 1) t l2" and l2: "length l2 = length l"
      by (auto simp: fill_inv_def)
    have c: "unat c \<le> 4096" using t up by linarith
    have "filled ps off (Suc (N - 1)) (t + unat c)
        (l2[N - 1 := k_sg_set_page K (l2 ! (N - 1)) (ps ! (N - 1)) (ucast c) 0])"
      using K t l2 len N(2) c by (intro filled_page) (auto simp: sg_api_ok_def unat_ucast_down)
    then show ?thesis
      using t N(2) c l2 len by (simp add: add.commute)
  qed
  have "runs (foldM (fill_middle K ps) [1..<N - 1] (count - ucast (sg_len e0))) (l[0 := e0])
      (\<lambda>c l2. \<not> PAGE_SIZE < c \<and> N - 1 < length l2 \<and> length l2 = length l \<and> filled ps off N n
        (l2[N - 1 := k_sg_set_page K (l2 ! (N - 1)) (ps ! (N - 1)) (ucast c) 0]))"
    by (rule runs_weaken [OF loop [OF inv1]]) (rule last)
  moreover have "offset (k_sg_set_page K (l ! 0) (ps ! 0) 0 (offset_in_page start)) = offset_in_page start"
    using K by (simp add: sg_api_ok_def)
  moreover have "nat (int N - 1) = N - 1" "0 < length l" "0 < length ps"
    using len N(2) by auto
  ultimately show ?thesis
    using len N(2) unfolding fill_sgl_def e0_def
    by (auto elim!: runs_weaken)
qed

lemma fill_sgl_runs:
  assumes K: "sg_api_ok K" and n: "unat count = n" "0 < n" and off: "off = unat start mod 4096"
    and N: "N = (off + n - 1) div 4096 + 1" and len: "N \<le> length ps" "N \<le> length l"
  shows "runs (fill_sgl K ps start count (int N)) l
    (\<lambda>_ l'. length l' = length l \<and> filled ps off N n l')"
proof (cases "N = 1")
  case True
  then have "off + n \<le> 4096" using N n(2) by (simp add: div_eq_0_iff)
  moreover have "ps \<noteq> []" and "l \<noteq> []" using len True by auto
  ultimately show ?thesis
    using fill_sgl_single [OF K n(1) off] True by simp
next
  case False
  then have "1 < N" using N by simp
  then show ?thesis
    using K n off N len by (intro fill_sgl_multi) auto
qed

section \<open>A mapper in the heap\<close>

text \<open>
  \<open>with_mapper w m s ps l\<close> is the world \<open>w\<close> with one more mapper in its heap: the
  structure \<open>s\<close> at \<open>m\<close>, its page array \<open>ps\<close> and its scatter list \<open>l\<close>.
\<close>

definition with_mapper ::
  "world \<Rightarrow> u64 \<Rightarrow> sg_mapping_t \<Rightarrow> u64 list \<Rightarrow> scatterlist list \<Rightarrow> world" where
  "with_mapper w m s ps l = w\<lparr>sgms := (sgms w)(m \<mapsto> s),
     page_arrs := (page_arrs w)(pages s \<mapsto> ps), sgl_arrs := (sgl_arrs w)(sgl s \<mapsto> l)\<rparr>"

lemma world_swap [simp]:
  "w\<lparr>page_arrs := b, sgms := a\<rparr> = w\<lparr>sgms := a, page_arrs := b\<rparr>"
  "w\<lparr>sgl_arrs := c, sgms := a\<rparr> = w\<lparr>sgms := a, sgl_arrs := c\<rparr>"
  "w\<lparr>sgl_arrs := c, page_arrs := b\<rparr> = w\<lparr>page_arrs := b, sgl_arrs := c\<rparr>"
  by (cases w, simp)+

lemma world_same [simp]:
  "w\<lparr>sgms := sgms w\<rparr> = w" "w\<lparr>page_arrs := page_arrs w\<rparr> = w" "w\<lparr>sgl_arrs := sgl_arrs w\<rparr> = w"
  by (cases w, simp)+

definition fresh_mapper :: "world \<Rightarrow> u64 \<Rightarrow> sg_mapping_t \<Rightarrow> bool" where
  "fresh_mapper w m s \<longleftrightarrow> \<not> live w m \<and> \<not> live w (pages s) \<and> \<not> live w (sgl s)
     \<and> distinct [0, m, pages s, sgl s]"

text \<open>The arrays have the length the structure records.\<close>

definition sized :: "sg_mapping_t \<Rightarrow> u64 list \<Rightarrow> scatterlist list \<Rightarrow> bool" where
  "sized s ps l \<longleftrightarrow> int (length ps) = max_pages s \<and> int (length l) = max_pages s"

lemma fresh_mapper_logged [simp]: "fresh_mapper (logged w es) m s = fresh_mapper w m s"
  by (simp add: fresh_mapper_def)

lemma with_mapper_sel [simp]:
  "sgms (with_mapper w m s ps l) m = Some s"
  "p = pages s \<Longrightarrow> page_arrs (with_mapper w m s ps l) p = Some ps"
  "p = sgl s \<Longrightarrow> sgl_arrs (with_mapper w m s ps l) p = Some l"
  "desc_arrs (with_mapper w m s ps l) = desc_arrs w"
  "data_bufs (with_mapper w m s ps l) = data_bufs w"
  "trace (with_mapper w m s ps l) = trace w"
  "xpcie_dev (with_mapper w m s ps l) = xpcie_dev w"
  "engine_regs_h2c (with_mapper w m s ps l) = engine_regs_h2c w"
  "engine_sgdma_regs (with_mapper w m s ps l) = engine_sgdma_regs w"
  by (simp_all add: with_mapper_def)

lemma logged_with_mapper [simp]:
  "logged (with_mapper w m s ps l) es = with_mapper (logged w es) m s ps l"
  by (simp add: with_mapper_def logged_def)

lemma with_mapper_upd [simp]:
  "pages s' = pages s \<Longrightarrow> sgl s' = sgl s \<Longrightarrow>
   (with_mapper w m s ps l)\<lparr>sgms := (sgms (with_mapper w m s ps l))(m \<mapsto> s')\<rparr>
     = with_mapper w m s' ps l"
  "p = pages s \<Longrightarrow>
   (with_mapper w m s ps l)\<lparr>page_arrs := (page_arrs (with_mapper w m s ps l))(p \<mapsto> ps')\<rparr>
     = with_mapper w m s ps' l"
  "p = sgl s \<Longrightarrow>
   (with_mapper w m s ps l)\<lparr>sgl_arrs := (sgl_arrs (with_mapper w m s ps l))(p \<mapsto> l')\<rparr>
     = with_mapper w m s ps l'"
  by (simp_all add: with_mapper_def)

text \<open>Events of the allocator, which neither pin a page nor touch the device.\<close>

fun heap_event :: "event \<Rightarrow> bool" where
  "heap_event (Mem (E_kcalloc n sz p)) = True"
| "heap_event (Mem (E_kfree p)) = True"
| "heap_event e = False"

section \<open>Creating and destroying\<close>

lemma kcalloc_okD: "kcalloc_ok K \<Longrightarrow> k_kcalloc K w n sz \<noteq> 0 \<Longrightarrow> \<not> live w (k_kcalloc K w n sz)"
  by (simp add: kcalloc_ok_def)

lemma unat_of_nat_u64: "n < 2 ^ 64 \<Longrightarrow> unat (of_nat n :: u64) = n"
  by (simp add: unsigned_of_nat take_bit_nat_eq_self)

definition mapper_pages :: "u64 \<Rightarrow> nat" where
  "mapper_pages max_len = unat max_len div 4096 + 2"

definition created :: "world \<Rightarrow> u64 \<Rightarrow> u64 \<Rightarrow> world \<Rightarrow> bool" where
  "created w max_len m w' \<longleftrightarrow> (\<exists>es. (\<forall>e \<in> set es. heap_event e) \<and>
     (if m = 0 then w' = logged w es
      else \<exists>s ps l. w' = with_mapper (logged w es) m s ps l \<and> fresh_mapper w m s \<and> sized s ps l
        \<and> max_pages s = int (mapper_pages max_len) \<and> mapped_pages s = 0))"

lemma runs_sg_init_table [simp]: "runs (sg_init_table K l n) w Q \<longleftrightarrow>
    (\<exists>xs. sgl_arrs w l = Some xs \<and> 1 \<le> n \<and> n \<le> int (length xs) \<and>
      Q () (w\<lparr>sgl_arrs := (sgl_arrs w)(l \<mapsto> k_sg_init_table K xs (nat n))\<rparr>))"
  unfolding sg_init_table_def runs_at_sgl by (auto simp: runs_def)

lemma created_fail: "list_all heap_event es \<Longrightarrow> created w n 0 (logged w es)"
  by (auto simp: created_def list_all_iff)

lemma created_ok:
  assumes "m \<noteq> 0" and "list_all heap_event es" and "w' = with_mapper (logged w es) m s ps l"
    and "fresh_mapper w m s" and "sized s ps l"
    and "max_pages s = int (mapper_pages max_len)" and "mapped_pages s = 0"
  shows "created w max_len m w'"
  using assms unfolding created_def list_all_iff by auto

lemma logged_upd [simp]:
  "(logged w es)\<lparr>sgms := a\<rparr> = logged (w\<lparr>sgms := a\<rparr>) es"
  "(logged w es)\<lparr>page_arrs := b\<rparr> = logged (w\<lparr>page_arrs := b\<rparr>) es"
  "(logged w es)\<lparr>sgl_arrs := c\<rparr> = logged (w\<lparr>sgl_arrs := c\<rparr>) es"
  by (cases w, simp add: logged_def)+

lemma runs_kcalloc_sgm:
  assumes "kcalloc_ok K" and "Q 0 (logged w [Mem (E_kcalloc 1 24 0)])"
    and "\<And>p. p \<noteq> 0 \<Longrightarrow> \<not> live w p \<Longrightarrow>
      Q p (logged (w\<lparr>sgms := (sgms w)(p \<mapsto> zero_sgm)\<rparr>) [Mem (E_kcalloc 1 24 p)])"
  shows "runs (kcalloc_sgm K) w Q"
  using assms(2,3) kcalloc_okD [OF assms(1), of w 1 24]
  by (cases "k_kcalloc K w 1 24 = 0") (auto simp: kcalloc_sgm_def)

lemma runs_kcalloc_pages:
  assumes "kcalloc_ok K" and "Q 0 (logged w [Mem (E_kcalloc n 8 0)])"
    and "\<And>p. p \<noteq> 0 \<Longrightarrow> \<not> live w p \<Longrightarrow>
      Q p (logged (w\<lparr>page_arrs := (page_arrs w)(p \<mapsto> replicate (unat n) 0)\<rparr>)
        [Mem (E_kcalloc n 8 p)])"
  shows "runs (kcalloc_pages K n) w Q"
  using assms(2,3) kcalloc_okD [OF assms(1), of w n 8]
  by (cases "k_kcalloc K w n 8 = 0") (auto simp: kcalloc_pages_def)

lemma runs_kcalloc_sgl:
  assumes "kcalloc_ok K" and "Q 0 (logged w [Mem (E_kcalloc n (sizeof_scatterlist K) 0)])"
    and "\<And>p. p \<noteq> 0 \<Longrightarrow> \<not> live w p \<Longrightarrow>
      Q p (logged (w\<lparr>sgl_arrs := (sgl_arrs w)(p \<mapsto> replicate (unat n) zero_sg)\<rparr>)
        [Mem (E_kcalloc n (sizeof_scatterlist K) p)])"
  shows "runs (kcalloc_sgl K n) w Q"
  using assms(2,3) kcalloc_okD [OF assms(1), of w n "sizeof_scatterlist K"]
  by (cases "k_kcalloc K w n (sizeof_scatterlist K) = 0") (auto simp: kcalloc_sgl_def)

lemma kfree_only [simp]:
  assumes "\<not> live w p" and "p \<noteq> 0"
  shows "runs (kfree p) (w\<lparr>sgms := (sgms w)(p \<mapsto> s)\<rparr>) Q = Q () (logged w [Mem (E_kfree p)])"
  using assms by (cases w) (simp add: live_def logged_def fun_upd_idem)

lemma sg_create_mapper_runs:
  assumes K: "kcalloc_ok K" "sg_api_ok K" and len: "unat max_len < 2 ^ 42"
  shows "runs (sg_create_mapper K max_len) w (created w max_len)"
proof (cases "max_len = 0")
  case True
  then show ?thesis by (auto simp: sg_create_mapper_def created_def intro: exI [where x = "[]"])
next
  case False
  have n: "unat (max_len div PAGE_SIZE + 2) = mapper_pages max_len"
    using len by (subst unat_add_lem [THEN iffD1]) (auto simp: unat_div mapper_pages_def)
  have mp: "c_int (max_len div PAGE_SIZE + 2) = int (mapper_pages max_len)"
    using len n by (subst c_int_small) (auto simp: mapper_pages_def)
  have un: "unat (of_nat (mapper_pages max_len) :: u64) = mapper_pages max_len"
    using len by (intro unat_of_nat_u64) (simp add: mapper_pages_def)
  have pos: "0 < mapper_pages max_len" by (simp add: mapper_pages_def)
  have init: "length (k_sg_init_table K xs n) = length xs" for xs n
    using K(2) by (simp add: sg_api_ok_def)
  show ?thesis
    unfolding sg_create_mapper_def using False
    apply (simp add: mp)
    apply (rule runs_kcalloc_sgm [OF K(1)])
    subgoal by (simp add: created_fail)
    subgoal for m
      apply simp
      apply (rule runs_kcalloc_pages [OF K(1)])
      subgoal by (simp add: live_def fun_upd_idem created_fail)
      subgoal for p
        apply (cases "p = m")
        subgoal by (simp add: live_def)
        apply simp
        apply (rule runs_kcalloc_sgl [OF K(1)])
        subgoal by (simp add: un live_def fun_upd_idem created_fail)
        subgoal for l
          apply (cases "l = m \<or> l = p")
          subgoal by (auto simp: live_def)
          apply (simp add: un pos Suc_leI)
          apply (rule created_ok [where s = "\<lparr>sgl = l, pages = p, max_pages = int (mapper_pages max_len), mapped_pages = 0\<rparr>"
             and ps = "replicate (mapper_pages max_len) 0" and l = "k_sg_init_table K (replicate (mapper_pages max_len) zero_sg) (mapper_pages max_len)"])
          apply (auto simp: with_mapper_def live_def fresh_mapper_def sized_def init zero_sgm_def)
          done
        done
      done
    done
qed

section \<open>Pinning the pages of a user buffer\<close>

lemma runs_page_at [simp]: "runs (page_at p i) w Q \<longleftrightarrow>
    (\<exists>ps. page_arrs w p = Some ps \<and> i < length ps \<and> Q (ps ! i) w)"
  by (auto simp: page_at_def)

lemma runs_page_events:
  assumes "n \<le> length ps" and "p = pages s"
  shows "runs (forM [0..<n] (\<lambda>i. mbind (page_at p i) (\<lambda>pg. emit (ev pg))))
      (with_mapper w m s ps l) Q
    = Q () (with_mapper (logged w (map ev (take n ps))) m s ps l)"
proof (rule runs_eq)
  have "runs (forM [0..<n] (\<lambda>i. mbind (page_at p i) (\<lambda>pg. emit (ev pg))))
      (with_mapper w m s ps l) (\<lambda>_ w'. w' = with_mapper (logged w (map ev (take n ps))) m s ps l)"
    by (rule runs_forM_upt [where I = "\<lambda>i w'. w' = with_mapper (logged w (map ev (take i ps))) m s ps l"])
      (use assms in \<open>auto simp: take_Suc_conv_app_nth\<close>)
  then show "runs (forM [0..<n] (\<lambda>i. mbind (page_at p i) (\<lambda>pg. emit (ev pg))))
      (with_mapper w m s ps l)
      (\<lambda>a w'. a = () \<and> w' = with_mapper (logged w (map ev (take n ps))) m s ps l)"
    by simp
qed

lemma runs_clear_pages:
  assumes "n \<le> length ps"
  shows "runs (forM [0..<n] (\<lambda>i. at_pages (pages s) (arr_upd i (\<lambda>_. 0)))) (with_mapper w m s ps l) Q
    = Q () (with_mapper w m s (replicate n 0 @ drop n ps) l)"
proof (rule runs_eq)
  have "runs (forM [0..<n] (\<lambda>i. at_pages (pages s) (arr_upd i (\<lambda>_. 0)))) (with_mapper w m s ps l)
      (\<lambda>_ w'. w' = with_mapper w m s (replicate n 0 @ drop n ps) l)"
  proof (rule runs_forM_upt [where I = "\<lambda>i w'. w' = with_mapper w m s (replicate i 0 @ drop i ps) l"])
    fix i w'
    assume i: "i < n" and w': "w' = with_mapper w m s (replicate i 0 @ drop i ps) l"
    have "(replicate i 0 @ drop i ps)[i := 0] = replicate (Suc i) 0 @ drop (Suc i) ps"
      using i assms
      by (simp add: list_update_append replicate_append_same [symmetric] Cons_nth_drop_Suc [symmetric])
    then show "runs (at_pages (pages s) (arr_upd i (\<lambda>_. 0))) w'
        (\<lambda>_ w'. w' = with_mapper w m s (replicate (Suc i) 0 @ drop (Suc i) ps) l)"
      using i assms w' by simp
  qed simp_all
  then show "runs (forM [0..<n] (\<lambda>i. at_pages (pages s) (arr_upd i (\<lambda>_. 0)))) (with_mapper w m s ps l)
      (\<lambda>a w'. a = () \<and> w' = with_mapper w m s (replicate n 0 @ drop n ps) l)"
    by simp
qed

lemma runs_get_user_pages_fast:
  assumes "gup_ok K" and "int (length ps) \<ge> n"
    and "\<And>rc pgs. rc \<le> n \<Longrightarrow> length pgs = nat rc \<Longrightarrow> (\<exists>v. k_get_user_pages_fast K v start n wr = (rc, pgs)) \<Longrightarrow> Q rc (with_mapper
      (logged w [Mem (E_get_user_pages start n wr pgs)]) m s (pgs @ drop (length pgs) ps) l)"
  shows "runs (get_user_pages_fast K start n wr (pages s)) (with_mapper w m s ps l) Q"
proof -
  obtain rc pgs where r: "k_get_user_pages_fast K (with_mapper w m s ps l) start n wr = (rc, pgs)"
    by (cases "k_get_user_pages_fast K (with_mapper w m s ps l) start n wr")
  with assms(1) have "rc \<le> n" "length pgs = nat rc" by (auto simp: gup_ok_def)
  with r assms(2,3) show ?thesis
    by (auto simp: get_user_pages_fast_def) (auto simp: runs_def)
qed

lemma buffer_slots_take:
  assumes "off + n \<le> 4096 * N"
  shows "buffer_slots (take N ps) off n = buffer_slots ps off n"
proof -
  have "(off + k) div 4096 < N" if "k < n" for k
    using that assms by (simp add: less_mult_imp_div_less)
  then show ?thesis by (auto simp: buffer_slots_def)
qed

text \<open>Pages that the kernel has pinned for the \<open>N\<close> pages from an address on.\<close>

definition pinned :: "kapi \<Rightarrow> u64 \<Rightarrow> bool \<Rightarrow> nat \<Rightarrow> u64 list \<Rightarrow> bool" where
  "pinned K start wr N pgs \<longleftrightarrow> length pgs = N \<and> (\<exists>v. k_get_user_pages_fast K v start (int N) wr = (int N, pgs))"

text \<open>
  The outcome of pinning the \<open>N\<close> pages of a buffer: either all \<open>N\<close> are pinned, recorded and
  described by the scatter list, or none stays pinned and the result is \<open>-ENOMEM\<close>.
\<close>

definition pin_outcome ::
  "kapi \<Rightarrow> world \<Rightarrow> u64 \<Rightarrow> sg_mapping_t \<Rightarrow> u64 \<Rightarrow> u64 \<Rightarrow> bool \<Rightarrow> nat \<Rightarrow> int \<Rightarrow> world \<Rightarrow> bool" where
  "pin_outcome K w m s start count wr N rc w' \<longleftrightarrow> (\<exists>pgs ps' l'. sized s ps' l' \<and>
     (if rc = int N then
        pinned K start wr N pgs \<and> take N ps' = pgs
        \<and> filled pgs (unat start mod 4096) N (unat count) l'
        \<and> w' = with_mapper (logged w (Mem (E_get_user_pages start (int N) wr pgs)
            # map (\<lambda>pg. Mem (E_flush_dcache_page pg)) pgs)) m (s\<lparr>mapped_pages := int N\<rparr>) ps' l'
      else
        rc = - ENOMEM \<and> length pgs < N
        \<and> w' = with_mapper (logged w (Mem (E_get_user_pages start (int N) wr pgs)
            # map (\<lambda>pg. Mem (E_put_page pg)) pgs)) m (s\<lparr>mapped_pages := 0\<rparr>) ps' l'))"

lemma pin_outcome_fail:
  assumes "length pgs < N" and "sized s ps' l'"
  shows "pin_outcome K w m s start count wr N (- ENOMEM)
    (with_mapper (logged w (Mem (E_get_user_pages start (int N) wr pgs)
       # map (\<lambda>pg. Mem (E_put_page pg)) pgs)) m (s\<lparr>mapped_pages := 0\<rparr>) ps' l')"
  unfolding pin_outcome_def using assms
  by (intro exI [where x = pgs] exI [where x = ps'] exI [where x = l']) (simp add: ENOMEM_def)

lemmas pin_outcome_none = pin_outcome_fail [of "[]", simplified]

lemma pin_outcome_ok:
  assumes "pinned K start wr N pgs" and "sized s (pgs @ ps') l'"
    and "filled pgs (unat start mod 4096) N (unat count) l'"
  shows "pin_outcome K w m s start count wr N (int N)
    (with_mapper (logged w (Mem (E_get_user_pages start (int N) wr pgs)
       # map (\<lambda>pg. Mem (E_flush_dcache_page pg)) pgs)) m (s\<lparr>mapped_pages := int N\<rparr>)
     (pgs @ ps') l')"
  unfolding pin_outcome_def using assms
  by (intro exI [where x = pgs] exI [where x = "pgs @ ps'"] exI [where x = l']) (simp add: pinned_def)

lemma sgm_get_user_pages_runs:
  assumes K: "sg_api_ok K" "gup_ok K"
    and n: "count \<noteq> 0" "unat start + unat count \<le> 2 ^ 64" "unat count \<le> 2 ^ 42"
    and N: "N = (unat start mod 4096 + unat count - 1) div 4096 + 1" "int N \<le> max_pages s"
    and s: "sized s ps l" "mapped_pages s = 0"
  shows "runs (sgm_get_user_pages K m start count to_dev) (with_mapper w m s ps l)
    (pin_outcome K w m s start count (to_dev = 0) N)"
proof -
  have nr: "nr_pages_of start count = int N" using nr_pages_of_eq [OF n] N(1) by simp
  have pos: "0 < unat count" using n(1) by (simp add: unat_gt_0)
  have ini: "length (k_sg_init_table K xs k) = length xs" for xs k
    using K(1) by (simp add: sg_api_ok_def)
  have lens: "N \<le> length ps" "N \<le> length l" "N - 1 \<le> length ps" using s(1) N(2) by (auto simp: sized_def)
  have up: "unat start mod 4096 + unat count \<le> 4096 * N" using N(1) pos by linarith
  have N1: "1 \<le> N" using N(1) by simp
  have fill: "runs (fill_sgl K (pgs @ ps') start count (int N)) l'
      (\<lambda>_ l2. pin_outcome K w m s start count wr N (int N)
        (with_mapper (logged w (Mem (E_get_user_pages start (int N) wr pgs)
           # map (\<lambda>pg. Mem (E_flush_dcache_page pg)) pgs)) m (s\<lparr>mapped_pages := int N\<rparr>)
         (pgs @ ps') l2))"
    if "pinned K start wr N pgs" and "sized s (pgs @ ps') l'" for pgs ps' l' wr
  proof (rule runs_weaken [OF fill_sgl_runs [OF K(1) refl pos refl N(1)]])
    fix l2
    assume l2: "length l2 = length l' \<and> filled (pgs @ ps') (unat start mod 4096) N (unat count) l2"
    then have "filled pgs (unat start mod 4096) N (unat count) l2"
      using buffer_slots_take [OF up, of "pgs @ ps'"] that(1) by (simp add: filled_def pinned_def)
    then show "pin_outcome K w m s start count wr N (int N)
        (with_mapper (logged w (Mem (E_get_user_pages start (int N) wr pgs)
           # map (\<lambda>pg. Mem (E_flush_dcache_page pg)) pgs)) m (s\<lparr>mapped_pages := int N\<rparr>)
         (pgs @ ps') l2)"
      using that l2 by (intro pin_outcome_ok) (auto simp: sized_def)
  qed (use that N(2) in \<open>auto simp: sized_def pinned_def\<close>)
  show ?thesis
    unfolding sgm_get_user_pages_def nr Let_def
    using lens N1
    apply (simp add: runs_clear_pages nat_diff_distrib)
    apply (rule runs_get_user_pages_fast [OF K(2)])
    using s by (auto simp: out_unmap_def flush_pages_def runs_page_events sized_def ini pinned_def
        intro!: pin_outcome_fail pin_outcome_none fill)
qed

section \<open>Releasing and destroying a mapper\<close>

text \<open>What \<open>sgm_put_user_pages\<close> does to the pages: they are marked dirty when the device wrote them.\<close>

definition put_events :: "bool \<Rightarrow> u64 list \<Rightarrow> event list" where
  "put_events dirty pgs = (if dirty then map (\<lambda>pg. Mem (E_set_page_dirty pg)) pgs else [])
     @ map (\<lambda>pg. Mem (E_put_page pg)) pgs"

lemma sgm_put_user_pages_runs:
  assumes "nat (mapped_pages s) = n" and "n \<le> length ps"
  shows "runs (sgm_put_user_pages m to_dev) (with_mapper w m s ps l) Q
    = Q 0 (with_mapper (logged w (put_events (to_dev = 0) (take n ps))) m (s\<lparr>mapped_pages := 0\<rparr>) ps l)"
  using assms
  by (simp add: sgm_put_user_pages_def sgm_dirty_pages_def put_events_def runs_page_events)

lemma sg_destroy_mapper_runs:
  assumes "fresh_mapper w m s" and "mapped_pages s \<le> 0"
  shows "runs (sg_destroy_mapper m) (with_mapper w m s ps l) Q
    = Q () (logged w [Mem (E_kfree (sgl s)), Mem (E_kfree (pages s)), Mem (E_kfree m)])"
proof -
  have d: "m \<noteq> 0" "pages s \<noteq> 0" "sgl s \<noteq> 0" "m \<noteq> pages s" "m \<noteq> sgl s" "pages s \<noteq> sgl s"
    and n: "\<not> live w m" "\<not> live w (pages s)" "\<not> live w (sgl s)"
    using assms(1) by (auto simp: fresh_mapper_def)
  show ?thesis
    using d n assms(2)
    by (simp add: sg_destroy_mapper_def with_mapper_def live_def fun_upd_idem fun_upd_twist)
qed

text \<open>A mapper whose pages are still mapped is not destroyed: the \<open>BUG_ON\<close> stops the kernel.\<close>

lemma sg_destroy_mapper_mapped:
  "sgms w m = Some s \<Longrightarrow> 0 < mapped_pages s \<Longrightarrow> sg_destroy_mapper m w = Inl Bug_On"
  by (simp add: sg_destroy_mapper_def sgm_get_def prog_defs)


section \<open>Kernel buffers: outcomes\<close>

text \<open>The \<open>k\<close>-th page of a vmalloc()ed buffer.\<close>

definition vm_page :: "kapi \<Rightarrow> u64 \<Rightarrow> nat \<Rightarrow> u64" where
  "vm_page K virt k = k_vmalloc_to_page K (virt + of_nat k * PAGE_SIZE)"

lemma vm_page_Suc: "vm_page K (virt + PAGE_SIZE) k = vm_page K virt (Suc k)"
  by (simp add: vm_page_def algebra_simps)

lemma vm_page_upt_Suc:
  "map (vm_page K virt) [0..<Suc n] = vm_page K virt 0 # map (vm_page K (virt + PAGE_SIZE)) [0..<n]"
  by (rule nth_equalityI) (auto simp: nth_Cons' vm_page_Suc simp del: upt_Suc)

lemma vmalloc_pages_runs:
  assumes "i + n \<le> length ps" and "\<And>k. k < n \<Longrightarrow> \<not> k_PageHighMem K (vm_page K virt k)"
  shows "runs (vmalloc_pages K i virt n) ps (\<lambda>ok ps'. length ps' = length ps
    \<and> ok = (0 \<notin> vm_page K virt ` {..<n})
    \<and> (ok \<longrightarrow> take (i + n) ps' = take i ps @ map (vm_page K virt) [0..<n]))"
  using assms
proof (induction n arbitrary: i virt ps)
  case 0
  then show ?case by simp
next
  case (Suc n)
  have v0: "k_vmalloc_to_page K virt = vm_page K virt 0" by (simp add: vm_page_def)
  have img: "vm_page K virt ` {..<Suc n} = insert (vm_page K virt 0) (vm_page K (virt + PAGE_SIZE) ` {..<n})"
    by (auto simp: lessThan_Suc_eq_insert_0 image_image vm_page_Suc)
  have hm: "\<not> k_PageHighMem K (vm_page K (virt + PAGE_SIZE) k)" if "k < n" for k
    using Suc.prems(2) [of "Suc k"] that by (simp add: vm_page_Suc)
  have "runs (vmalloc_pages K (Suc i) (virt + PAGE_SIZE) n) (ps[i := vm_page K virt 0])
    (\<lambda>ok ps'. length ps' = length ps \<and> ok = (0 \<notin> vm_page K (virt + PAGE_SIZE) ` {..<n})
     \<and> (ok \<longrightarrow> take (Suc i + n) ps' = take i ps @ vm_page K virt 0 # map (vm_page K (virt + PAGE_SIZE)) [0..<n]))"
    using Suc.prems(1) hm Suc.IH [of "Suc i" "ps[i := vm_page K virt 0]" "virt + PAGE_SIZE"]
    by (simp add: take_Suc_update)
  then show ?case
    using Suc.prems
    by (auto simp: v0 img vm_page_upt_Suc Let_def elim!: runs_weaken simp del: upt_Suc)
qed

definition kernel_outcome ::
  "kapi \<Rightarrow> world \<Rightarrow> u64 \<Rightarrow> sg_mapping_t \<Rightarrow> u64 \<Rightarrow> u64 \<Rightarrow> nat \<Rightarrow> int \<Rightarrow> world \<Rightarrow> bool" where
  "kernel_outcome K w m s start count N rc w' \<longleftrightarrow> (\<exists>ps' l'. sized s ps' l' \<and>
     (let pgs = map (vm_page K start) [0..<N] in
      if 0 \<in> set pgs then
        rc = - ENOMEM \<and> w' = with_mapper w m (s\<lparr>mapped_pages := 0\<rparr>) ps' l'
      else
        rc = int N \<and> take N ps' = pgs \<and> filled pgs (unat start mod 4096) N (unat count) l'
        \<and> w' = with_mapper (logged w (map (\<lambda>pg. Mem (E_flush_dcache_page pg)) pgs))
            m (s\<lparr>mapped_pages := int N\<rparr>) ps' l'))"

lemma sgm_kernel_pages_runs:
  assumes K: "sg_api_ok K"
    and n: "count \<noteq> 0" "unat start + unat count < 2 ^ 64" "unat count \<le> 2 ^ 42"
    and N: "N = (unat start mod 4096 + unat count - 1) div 4096 + 1" "int N \<le> max_pages s"
    and s: "sized s ps l" "mapped_pages s = 0"
    and low: "\<And>k. k < N \<Longrightarrow> \<not> k_PageHighMem K (vm_page K start k)"
  shows "runs (sgm_kernel_pages K m start count to_user) (with_mapper w m s ps l)
    (kernel_outcome K w m s start count N)"
proof -
  have nr: "nr_pages_of start count = int N" using nr_pages_of_eq [OF n(1) _ n(3)] n(2) N(1) by simp
  have pos: "0 < unat count" using n(1) by (simp add: unat_gt_0)
  have ini: "length (k_sg_init_table K xs k) = length xs" for xs k
    using K(1) by (simp add: sg_api_ok_def)
  have lens: "N \<le> length ps" "N \<le> length l" using s(1) N(2) by (auto simp: sized_def)
  have up: "unat start mod 4096 + unat count \<le> 4096 * N" using N(1) pos by linarith
  have wrap: "\<not> start + count < start"
    using n(2) by (subst word_less_nat_alt, subst unat_add_lem [THEN iffD1]) auto
  have N1: "1 \<le> N" using N(1) by simp
  let ?pgs = "map (vm_page K start) [0..<N]"
  have ok: "runs (fill_sgl K ps' start count (int N)) l'
      (\<lambda>_ l2. kernel_outcome K w m s start count N (int N)
        (with_mapper (logged w (map (\<lambda>pg. Mem (E_flush_dcache_page pg)) ?pgs)) m (s\<lparr>mapped_pages := int N\<rparr>) ps' l2))"
    if "sized s ps' l'" "take N ps' = ?pgs" "0 \<notin> set ?pgs" for ps' l'
  proof (rule runs_weaken [OF fill_sgl_runs [OF K(1) refl pos refl N(1)]])
    fix l2
    assume l2: "length l2 = length l' \<and> filled ps' (unat start mod 4096) N (unat count) l2"
    then have "filled ?pgs (unat start mod 4096) N (unat count) l2"
      using buffer_slots_take [OF up, of ps'] that(2) by (simp add: filled_def)
    then show "kernel_outcome K w m s start count N (int N)
        (with_mapper (logged w (map (\<lambda>pg. Mem (E_flush_dcache_page pg)) ?pgs)) m (s\<lparr>mapped_pages := int N\<rparr>) ps' l2)"
      unfolding kernel_outcome_def Let_def using that l2
      by (intro exI [where x = ps'] exI [where x = l2]) (auto simp: sized_def)
  qed (use that N(2) in \<open>auto simp: sized_def\<close>)
  have fail: "kernel_outcome K w m s start count N (- ENOMEM) (with_mapper w m (s\<lparr>mapped_pages := 0\<rparr>) ps' l')"
    if "sized s ps' l'" "0 \<in> set ?pgs" for ps' l'
    unfolding kernel_outcome_def Let_def using that by auto
  have vm: "runs (vmalloc_pages K 0 start N) ps (\<lambda>b ps'. length ps' = length ps
    \<and> b = (0 \<notin> set ?pgs) \<and> (b \<longrightarrow> take N ps' = ?pgs))"
    using vmalloc_pages_runs [of 0 N ps K start] lens low by (simp add: atLeast0LessThan)
  show ?thesis
    unfolding sgm_kernel_pages_def nr Let_def
    using lens N1 s N(2) wrap n(1)
    apply simp
    apply (rule runs_weaken [OF vm])
    by (auto simp: flush_pages_def runs_page_events sized_def ini simp del: map_map
        intro!: fail ok)
qed

text \<open>A buffer of which the kernel does not pin every page.\<close>

lemma sgm_get_user_pages_short:
  assumes K: "sg_api_ok K" "gup_ok K"
    and n: "cnt \<noteq> 0" "unat start + unat cnt \<le> 2 ^ 64" "unat cnt \<le> 2 ^ 42"
    and N: "N = (unat start mod 4096 + unat cnt - 1) div 4096 + 1" "int N \<le> max_pages s"
    and s: "sized s ps l" "mapped_pages s = 0"
    and short: "\<And>v. fst (k_get_user_pages_fast K v start (int N) (to_dev = 0)) < int N"
  shows "runs (sgm_get_user_pages K m start cnt to_dev) (with_mapper w m s ps l)
    (\<lambda>rc w'. sgms w' m = Some (s\<lparr>mapped_pages := 0\<rparr>))"
proof -
  have nr: "nr_pages_of start cnt = int N" using nr_pages_of_eq [OF n] N(1) by simp
  have ini: "length (k_sg_init_table K xs k) = length xs" for xs k
    using K(1) by (simp add: sg_api_ok_def)
  have lens: "N \<le> length ps" "N \<le> length l" "N - 1 \<le> length ps" using s(1) N(2) by (auto simp: sized_def)
  have N1: "1 \<le> N" using N(1) by simp
  have gup: "runs (get_user_pages_fast K start (int N) (to_dev = 0) (pages s)) (with_mapper w m s ps l) Q"
    if "int (length ps) \<ge> int N" "\<And>rc pgs. rc < int N \<Longrightarrow> length pgs = nat rc \<Longrightarrow> Q rc (with_mapper
      (logged w [Mem (E_get_user_pages start (int N) (to_dev = 0) pgs)]) m s (pgs @ drop (length pgs) ps) l)" for Q ps l
  proof -
    obtain rc pgs where r: "k_get_user_pages_fast K (with_mapper w m s ps l) start (int N) (to_dev = 0) = (rc, pgs)"
      by (cases "k_get_user_pages_fast K (with_mapper w m s ps l) start (int N) (to_dev = 0)")
    with K(2) have "length pgs = nat rc" by (auto simp: gup_ok_def)
    moreover have "rc < int N" using short [of "with_mapper w m s ps l"] r by simp
    ultimately show ?thesis
      using r that by (auto simp: get_user_pages_fast_def) (auto simp: runs_def)
  qed
  show ?thesis
    unfolding sgm_get_user_pages_def nr Let_def
    using lens N1
    apply (simp add: runs_clear_pages nat_diff_distrib)
    apply (rule gup)
    using s by (auto simp: out_unmap_def runs_page_events sized_def ini)
qed

end
