(* ===== verification/H2cWrite.thy ===== *)
theory H2cWrite
  imports Engine SgMapper
begin

text \<open>
  The write operation of the host-to-card device file, \<open>xpcie_h2c_write\<close>, in its four phases:
  pin and map the user buffer, build the descriptors, run the transfer, release the buffer.
\<close>

section \<open>Mapping a scatter list for DMA\<close>

definition store_dma :: "(u64 \<times> u32) list \<Rightarrow> scatterlist list \<Rightarrow> scatterlist list" where
  "store_dma segs l =
     map2 (\<lambda>e (a, n). e\<lparr>dma_address := a, dma_length := n\<rparr>) l segs @ drop (length segs) l"

definition pci_map_sg :: "kapi \<Rightarrow> u64 \<Rightarrow> u64 \<Rightarrow> int \<Rightarrow> dma_dir \<Rightarrow> (world, int) prog" where
  "pci_map_sg K dev l n dir =
     mbind (read_sgl l) (\<lambda>xs.
     if int (length xs) < n then crash_with Out_Of_Bounds
     else
       mbind (get_state (\<lambda>w. k_pci_map_sg K w dev (take (nat n) xs) dir)) (\<lambda>segs.
       mthen (at_sgl l (modify (store_dma segs)))
       (mthen (emit (Dma (E_map_sg dev l n dir (int (length segs)))))
       (ret (int (length segs))))))"

definition pci_unmap_sg :: "u64 \<Rightarrow> u64 \<Rightarrow> int \<Rightarrow> dma_dir \<Rightarrow> (world, unit) prog" where
  "pci_unmap_sg dev l n dir = emit (Dma (E_unmap_sg dev l n dir))"

definition dir_of :: "int \<Rightarrow> dma_dir" where
  "dir_of to_dev = (if to_dev \<noteq> 0 then DMA_TO_DEVICE else DMA_FROM_DEVICE)"

section \<open>The phases of a write\<close>

definition h2c_map_list :: "kapi \<Rightarrow> u64 \<Rightarrow> int \<Rightarrow> (world, u64 \<times> int) prog" where
  "h2c_map_list K m to_dev =
     mbind (sgm_get m) (\<lambda>s.
     mthen (bug_on (sgl s = 0))
     (mthen (bug_on (mapped_pages s = 0))
     (mbind (get_state xpcie_dev) (\<lambda>dev.
      mbind (pci_map_sg K dev (sgl s) (mapped_pages s) (dir_of to_dev)) (\<lambda>nents.
      ret (m, nents))))))"

definition h2c_map_buffer :: "kapi \<Rightarrow> u64 \<Rightarrow> u64 \<Rightarrow> int \<Rightarrow> (world, u64 \<times> int) prog" where
  "h2c_map_buffer K buf count to_dev =
     mbind (sg_create_mapper K count) (\<lambda>m.
     mbind (sgm_get_user_pages K m buf count to_dev) (\<lambda>_.
     h2c_map_list K m to_dev))"

text \<open>Ending the list at its last descriptor and counting the adjacent ones.\<close>

definition h2c_finish :: "kapi \<Rightarrow> xdma_transfer \<Rightarrow> int \<Rightarrow> (world, xdma_transfer) prog" where
  "h2c_finish K t last_desc =
     mthen (transfer_terminate K t last_desc)
     (let n = last_desc + 1; t = t\<lparr>desc_adjacent := n, desc_num := n\<rparr> in
      mthen (set_adjacent K t)
      (mbind (transfer_dump K t) (\<lambda>_.
      ret t)))"

definition h2c_build ::
  "kapi \<Rightarrow> u64 \<Rightarrow> int \<Rightarrow> u64 \<Rightarrow> int \<Rightarrow> int \<Rightarrow> int \<Rightarrow> int \<Rightarrow> (world, xdma_transfer) prog" where
  "h2c_build K m nents ep to_dev non_incr_addr force_new_desc from_user =
     mbind (get_state xpcie_dev) (\<lambda>dev.
     mbind (xdma_desc_alloc K dev nents False) (\<lambda>(virt, bus, _).
     (let t = zero_transfer\<lparr>sgm := m, sgl_nents := nents, desc_virt := virt, desc_bus := bus\<rparr> in
      mbind (transfer_build K t ep to_dev non_incr_addr force_new_desc from_user) (\<lambda>last_desc.
      h2c_finish K t last_desc))))"

definition h2c_release :: "xdma_transfer \<Rightarrow> int \<Rightarrow> (world, unit) prog" where
  "h2c_release t to_dev =
     mbind (get_state xpcie_dev) (\<lambda>dev.
     mbind (sgm_get (sgm t)) (\<lambda>s.
     mthen (pci_unmap_sg dev (sgl s) (mapped_pages s) (dir_of to_dev))
     (mbind (sgm_put_user_pages (sgm t) to_dev) (\<lambda>_.
      sg_destroy_mapper (sgm t)))))"

definition xpcie_h2c_write :: "kapi \<Rightarrow> u64 \<Rightarrow> u64 \<Rightarrow> u64 \<Rightarrow> (world, int) prog" where
  "xpcie_h2c_write K buf count ppos =
     (let from_user = 1; force_new_desc = 0; non_incr_addr = 0; to_dev = 1; ep = ppos in
      mbind (h2c_map_buffer K buf count to_dev) (\<lambda>(m, nents).
      mbind (h2c_build K m nents ep to_dev non_incr_addr force_new_desc from_user) (\<lambda>t.
      mbind (get_state xpcie_dev) (\<lambda>dev.
      mbind (transfer_start K dev t) (\<lambda>_.
      mthen (h2c_release t to_dev)
      (ret (sint count)))))))"

section \<open>Documented behaviour of the DMA mapping\<close>

text \<open>
  \<open>pci_map_sg\<close> fails with 0 or returns at most as many segments as the list has entries, each of
  at most \<open>M\<close> bytes, which together reach the bytes of the list in order.
\<close>

definition map_sg_ok :: "kapi \<Rightarrow> nat \<Rightarrow> bool" where
  "map_sg_ok K M \<longleftrightarrow> (\<forall>w dev xs dir segs. k_pci_map_sg K w dev xs dir = segs \<longrightarrow>
     length segs \<le> length xs \<and> (\<forall>(a, n) \<in> set segs. unat n \<le> M)
     \<and> (segs \<noteq> [] \<longrightarrow> map (k_dma_target K w dev xs dir)
          (concat (map (\<lambda>(a, n). span a (unat n)) segs)) = sgl_slots xs))"

lemma map_sg_okD:
  assumes "map_sg_ok K M" and "segs = k_pci_map_sg K w dev xs dir"
  shows "length segs \<le> length xs" and "\<forall>(a, n) \<in> set segs. unat n \<le> M"
    and "segs \<noteq> [] \<Longrightarrow> map (k_dma_target K w dev xs dir) (concat (map (\<lambda>(a, n). span a (unat n)) segs))
      = sgl_slots xs"
  using assms unfolding map_sg_ok_def by blast+

lemma length_store_dma [simp]: "length (store_dma segs l) = max (length l) (min (length l) (length segs))"
  by (simp add: store_dma_def)

lemma store_dma_take:
  assumes "length segs \<le> length l"
  shows "map (\<lambda>e. (dma_address e, dma_length e)) (take (length segs) (store_dma segs l)) = segs"
  using assms by (intro nth_equalityI) (auto simp: store_dma_def split: prod.splits)

lemma dma_bytes_store:
  assumes "length segs \<le> length l"
  shows "dma_bytes (take (length segs) (store_dma segs l)) = concat (map (\<lambda>(a, n). span a (unat n)) segs)"
proof -
  have "dma_bytes (take (length segs) (store_dma segs l)) 
      = concat (map (\<lambda>(a, n). span a (unat n)) (map (\<lambda>e. (dma_address e, dma_length e)) (take (length segs) (store_dma segs l))))"
    by (simp add: dma_bytes_def dma_span_def [abs_def] comp_def)
  then show ?thesis by (simp only: store_dma_take [OF assms])
qed

lemma set_take_store_dma:
  assumes "length segs \<le> length l" and "e \<in> set (take (length segs) (store_dma segs l))"
  shows "(dma_address e, dma_length e) \<in> set segs"
proof -
  have "(dma_address e, dma_length e) \<in> set (map (\<lambda>e. (dma_address e, dma_length e)) (take (length segs) (store_dma segs l)))"
    using assms(2) by force
  then show ?thesis by (simp only: store_dma_take [OF assms(1)])
qed

lemma dma_bytes_cong: "dma_bytes (take n l) = dma_bytes l'" if "take n l = l'"
  using that by simp

section \<open>The buffer is mapped\<close>

lemma runs_pci_map_sg:
  assumes "sgl_arrs w lp = Some l" and "n \<le> int (length l)"
  shows "runs (pci_map_sg K dev lp n dir) w Q =
    (let segs = k_pci_map_sg K w dev (take (nat n) l) dir in
     Q (int (length segs)) (logged (w\<lparr>sgl_arrs := (sgl_arrs w)(lp \<mapsto> store_dma segs l)\<rparr>)
       [Dma (E_map_sg dev lp n dir (int (length segs)))]))"
  using assms by (simp add: pci_map_sg_def Let_def)

text \<open>
  \<open>mapped_buffer K M w buf count m n w'\<close>: the world \<open>w'\<close> is \<open>w\<close> with a mapper at \<open>m\<close>
  whose pages \<open>pgs\<close> are pinned and whose scatter list is mapped to \<open>n\<close> segments that reach the
  bytes of the buffer in order.
\<close>

definition pin_events :: "u64 \<Rightarrow> u64 list \<Rightarrow> event list" where
  "pin_events buf pgs =
     Mem (E_get_user_pages buf (int (length pgs)) False pgs) # map (\<lambda>pg. Mem (E_flush_dcache_page pg)) pgs"

definition map_events :: "u64 \<Rightarrow> u64 \<Rightarrow> u64 \<Rightarrow> u64 list \<Rightarrow> nat \<Rightarrow> event list" where
  "map_events dev buf lp pgs n =
     pin_events buf pgs @ [Dma (E_map_sg dev lp (int (length pgs)) DMA_TO_DEVICE (int n))]"

text \<open>
  The call of \<open>pci_map_sg\<close> that is made when the trace is \<open>tr\<close> yields segments with the bus
  addresses \<open>addrs\<close>, and at these the device reaches the bytes \<open>slots\<close>.
\<close>

definition reaches :: "kapi \<Rightarrow> event list \<Rightarrow> u64 \<Rightarrow> u64 list \<Rightarrow> (u64 \<times> nat) list \<Rightarrow> bool" where
  "reaches K tr dev addrs slots \<longleftrightarrow>
     (\<exists>w xs. trace w = tr \<and> sgl_slots xs = slots
       \<and> concat (map (\<lambda>(a, n). span a (unat n)) (k_pci_map_sg K w dev xs DMA_TO_DEVICE)) = addrs
       \<and> map (k_dma_target K w dev xs DMA_TO_DEVICE) addrs = slots)"

definition mapped_buffer ::
  "kapi \<Rightarrow> nat \<Rightarrow> world \<Rightarrow> u64 \<Rightarrow> u64 \<Rightarrow> u64 \<Rightarrow> nat \<Rightarrow> event list \<Rightarrow> sg_mapping_t \<Rightarrow> u64 list
    \<Rightarrow> scatterlist list \<Rightarrow> u64 list \<Rightarrow> bool" where
  "mapped_buffer K M w buf count m n hs s ps l pgs \<longleftrightarrow>
     list_all heap_event hs \<and> fresh_mapper w m s \<and> sized s ps l
     \<and> mapped_pages s = int (length pgs) \<and> take (length pgs) ps = pgs \<and> length pgs \<le> length ps
     \<and> pinned K buf False ((unat buf mod 4096 + unat count - 1) div 4096 + 1) pgs
     \<and> n \<le> length pgs \<and> (\<forall>e \<in> set (take n l). unat (dma_length e) \<le> M)
     \<and> (0 < n \<longrightarrow> reaches K (trace w @ hs @ pin_events buf pgs) (xpcie_dev w) (dma_bytes (take n l))
          (buffer_slots pgs (unat buf mod 4096) (unat count)))"

definition mapped_world ::
  "world \<Rightarrow> u64 \<Rightarrow> u64 \<Rightarrow> nat \<Rightarrow> event list \<Rightarrow> sg_mapping_t \<Rightarrow> u64 list \<Rightarrow> scatterlist list \<Rightarrow> u64 list \<Rightarrow> world" where
  "mapped_world w buf m n hs s ps l pgs =
     with_mapper (logged w (hs @ map_events (xpcie_dev w) buf (sgl s) pgs n)) m s ps l"

text \<open>The three ways the first phase can go.\<close>

definition map_phase ::
  "kapi \<Rightarrow> nat \<Rightarrow> world \<Rightarrow> u64 \<Rightarrow> u64 \<Rightarrow> crash + ((u64 \<times> int) \<times> world) \<Rightarrow> bool" where
  "map_phase K M w buf count r \<longleftrightarrow>
     r = Inl Bad_Pointer \<or> r = Inl Bug_On
     \<or> (\<exists>m n hs s ps l pgs. mapped_buffer K M w buf count m n hs s ps l pgs
          \<and> r = Inr ((m, int n), mapped_world w buf m n hs s ps l pgs))"

lemma pages_bound: 
  assumes "(a :: nat) < 4096"
  shows "(a + c - 1) div 4096 < c div 4096 + 2"
proof -
  have "(a + c - 1) div 4096 \<le> (c + 4096) div 4096"
    using assms by (intro div_le_mono) simp
  then show ?thesis by simp
qed

text \<open>Mapping the list of a mapper whose pages are pinned.\<close>

lemma h2c_map_list_runs:
  assumes K: "map_sg_ok K M" and h: "list_all heap_event hs" and s: "fresh_mapper w m s" "sized s ps l"
    and N: "pinned K buf False ((unat buf mod 4096 + unat count - 1) div 4096 + 1) pgs" "length pgs \<le> length ps"
    and pg: "take (length pgs) ps = pgs" "mapped_pages s = int (length pgs)"
    and f: "filled pgs (unat buf mod 4096) (length pgs) (unat count) l"
  shows "map_phase K M w buf count (h2c_map_list K m 1 (with_mapper (logged w (hs @ pin_events buf pgs)) m s ps l))"
proof -
  define w2 where "w2 = with_mapper (logged w (hs @ pin_events buf pgs)) m s ps l"
  define segs where "segs = k_pci_map_sg K w2 (xpcie_dev w) (take (length pgs) l) DMA_TO_DEVICE"
  note M = map_sg_okD [OF K segs_def]
  have l: "length pgs \<le> length l" "0 < length pgs" "sgl s \<noteq> 0"
    using s N by (auto simp: sized_def fresh_mapper_def pinned_def)
  have sl: "length segs \<le> length pgs" "length segs \<le> length l" using M(1) l by auto
  have "runs (h2c_map_list K m 1) w2 (\<lambda>r w3. r = (m, int (length segs))
      \<and> w3 = mapped_world w buf m (length segs) hs s ps (store_dma segs l) pgs)"
    using l pg(2) by (simp add: h2c_map_list_def w2_def runs_pci_map_sg dir_of_def mapped_world_def map_events_def
        segs_def Let_def)
  moreover have "reaches K (trace w @ hs @ pin_events buf pgs) (xpcie_dev w) (dma_bytes (take (length segs) (store_dma segs l)))
      (buffer_slots pgs (unat buf mod 4096) (unat count))" if "0 < length segs"
    unfolding reaches_def dma_bytes_store [OF sl(2)] using M(3) that f
    by (intro exI [of _ w2] exI [of _ "take (length pgs) l"] conjI) (simp_all add: w2_def [symmetric] segs_def [symmetric] filled_def,
        simp add: w2_def)
  then have "mapped_buffer K M w buf count m (length segs) hs s ps (store_dma segs l) pgs"
    unfolding mapped_buffer_def using h s N pg sl M(2) set_take_store_dma [OF sl(2)]
    by (force simp: sized_def)
  ultimately show ?thesis
    unfolding map_phase_def runs_iff w2_def by blast
qed

text \<open>Without a mapper, or without all pages, the phase stops.\<close>

lemma h2c_map_list_stops: "sgms w m = Some s \<Longrightarrow> mapped_pages s = 0 \<Longrightarrow> h2c_map_list K m 1 w = Inl Bug_On"
  by (simp add: h2c_map_list_def sgm_get_def prog_defs)

lemma fresh_mapper_pages [simp]: "fresh_mapper w m (s\<lparr>mapped_pages := k\<rparr>) = fresh_mapper w m s"
  by (simp add: fresh_mapper_def)

lemma sized_pages [simp]: "sized (s\<lparr>mapped_pages := k\<rparr>) ps l = sized s ps l"
  by (simp add: sized_def)

lemma h2c_map_buffer_phase:
  assumes K: "kcalloc_ok K" "sg_api_ok K" "gup_ok K" "map_sg_ok K M"
    and n: "count \<noteq> 0" "unat buf + unat count \<le> 2 ^ 64" "unat count < 2 ^ 42"
    and nul: "sgms w 0 = None"
  shows "map_phase K M w buf count (h2c_map_buffer K buf count 1 w)"
proof -
  obtain m w1 where c: "sg_create_mapper K count w = Inr (m, w1)" "created w count m w1"
    using sg_create_mapper_runs [OF K(1,2) n(3), where w = w] by (auto simp: runs_iff)
  show ?thesis
  proof (cases "m = 0")
    case True
    then have "sgms w1 0 = None" using c(2) nul by (auto simp: created_def)
    then show ?thesis using c(1) True
      by (simp add: map_phase_def h2c_map_buffer_def sgm_get_user_pages_def sgm_get_def mbind_def Let_def)
  next
    case False
    then obtain hs s ps l where h: "list_all heap_event hs" and w1: "w1 = with_mapper (logged w hs) m s ps l"
      and s: "fresh_mapper w m s" "sized s ps l" "max_pages s = int (mapper_pages count)" "mapped_pages s = 0"
      using c(2) by (auto simp: created_def list_all_iff)
    define N where "N = (unat buf mod 4096 + unat count - 1) div 4096 + 1"
    have N: "int N \<le> max_pages s"
      using pages_bound [of "unat buf mod 4096" "unat count"] by (simp add: N_def s(3) mapper_pages_def)
    obtain rc w2 where g: "sgm_get_user_pages K m buf count 1 w1 = Inr (rc, w2)"
      "pin_outcome K (logged w hs) m s buf count False N rc w2"
      using sgm_get_user_pages_runs [OF K(2,3) n(1,2) less_imp_le [OF n(3)] N_def N s(2,4), of m 1 "logged w hs"]
      unfolding w1 by (auto simp: runs_iff)
    have start: "h2c_map_buffer K buf count 1 w = h2c_map_list K m 1 w2"
      unfolding h2c_map_buffer_def using c(1) g(1) by (simp add: mbind_def)
    show ?thesis
    proof (cases "rc = int N")
      case False
      then obtain s' where "sgms w2 m = Some s'" "mapped_pages s' = 0"
        using g(2) by (auto simp: pin_outcome_def)
      then show ?thesis unfolding start by (simp add: map_phase_def h2c_map_list_stops)
    next
      case True
      then obtain pgs ps' l' where p: "sized s ps' l'" "pinned K buf False N pgs" "take N ps' = pgs"
        "filled pgs (unat buf mod 4096) N (unat count) l'"
        and "w2 = with_mapper (logged (logged w hs) (Mem (E_get_user_pages buf (int N) False pgs)
            # map (\<lambda>pg. Mem (E_flush_dcache_page pg)) pgs)) m (s\<lparr>mapped_pages := int N\<rparr>) ps' l'"
        using g(2) unfolding True pin_outcome_def if_P [OF refl] by (elim exE conjE) (rule that)
      then have "w2 = with_mapper (logged w (hs @ pin_events buf pgs)) m (s\<lparr>mapped_pages := int N\<rparr>) ps' l'"
        by (simp add: pin_events_def pinned_def)
      moreover have "N \<le> length ps'" using N p(1) by (simp add: sized_def)
      ultimately show ?thesis
        unfolding start using p s(1) h2c_map_list_runs [OF K(4) h, of w m "s\<lparr>mapped_pages := int N\<rparr>" ps' l' buf count pgs]
        by (simp add: N_def pinned_def)
    qed
  qed
qed

section \<open>The descriptors are built\<close>

lemma put_descs_with_mapper [simp]:
  "put_descs (with_mapper w m s ps l) p ds = with_mapper (put_descs w p ds) m s ps l"
  by (simp add: put_descs_def with_mapper_def)

lemma fresh_mapper_put_descs [simp]: "fresh_mapper (put_descs w p ds) m s = fresh_mapper w m s"
  by (simp add: fresh_mapper_def live_def)

text \<open>
  The second phase on a world with a mapped scatter list: it stops where no descriptor memory is
  to be had, and otherwise leaves a finished list.
\<close>

lemma h2c_build_none: "h2c_build K m 0 ep to_dev non_incr force_new from_user w = Inl Bug_On"
  by (simp add: h2c_build_def xdma_desc_alloc_def prog_defs)

lemma h2c_build_no_memory:
  assumes "0 < n" and "sgms w m = Some s" and "sgl_arrs w (sgl s) = Some l" and "desc_arrs w 0 = None"
    and "k_pci_alloc_consistent K w (xpcie_dev w) (word_of_int n * sizeof_xdma_desc) = (0, bus)"
  shows "h2c_build K m n ep to_dev non_incr force_new from_user w = Inl Bad_Pointer"
  using assms
  by (simp add: h2c_build_def xdma_desc_alloc_def alloc_coherent_descs_def transfer_build_def
      read_sgl_def at_sgl_def at_descs_def sgm_get_def prog_defs Let_def)

definition drafted :: "u64 \<Rightarrow> nat \<Rightarrow> u64 \<Rightarrow> u64 \<Rightarrow> xdma_transfer" where
  "drafted m n virt bus = zero_transfer\<lparr>sgm := m, sgl_nents := int n, desc_virt := virt, desc_bus := bus\<rparr>"

definition built :: "u64 \<Rightarrow> nat \<Rightarrow> u64 \<Rightarrow> u64 \<Rightarrow> nat \<Rightarrow> xdma_transfer" where
  "built m n virt bus j = zero_transfer\<lparr>sgm := m, sgl_nents := int n, desc_virt := virt, desc_bus := bus,
     desc_adjacent := int (Suc j), desc_num := int (Suc j)\<rparr>"

text \<open>Allocation leaves a chained array of what the coherent memory held.\<close>

definition alloc_event :: "world \<Rightarrow> nat \<Rightarrow> u64 \<Rightarrow> u64 \<Rightarrow> event" where
  "alloc_event w n virt bus = Dma (E_alloc_coherent (xpcie_dev w) (word_of_int (int n) * sizeof_xdma_desc) virt bus)"

lemma h2c_alloc_runs:
  assumes "0 < n"
    and al: "k_pci_alloc_consistent K w (xpcie_dev w) (word_of_int (int n) * sizeof_xdma_desc) = (virt, bus)" "virt \<noteq> 0"
  shows "runs (xdma_desc_alloc K (xpcie_dev w) (int n) False) w (\<lambda>r w'. r = (virt, bus, None)
     \<and> (\<exists>ds. chained K bus (n - 1) (map (k_coherent_desc K w) [0..<n]) ds
          \<and> w' = put_descs (logged w [alloc_event w n virt bus]) virt ds))"
    (is "runs _ _ ?Q")
proof -
  let ?w1 = "logged w [alloc_event w n virt bus]" and ?raw = "map (k_coherent_desc K w) [0..<n]"
  have "n = Suc (n - 1)" using assms(1) by simp
  then have chain: "runs (chain_descs K (int n) bus) ?raw (\<lambda>_. chained K bus (n - 1) ?raw)"
    using chain_descs_runs [of ?raw "n - 1" K bus] by simp
  have "runs (at_descs virt (chain_descs K (int n) bus)) (put_descs ?w1 virt ?raw) (\<lambda>_ w'.
      \<exists>ds. chained K bus (n - 1) ?raw ds \<and> w' = put_descs ?w1 virt ds)"
    by (auto intro!: runs_weaken [OF chain])
  then show ?thesis
    unfolding xdma_desc_alloc_def runs_mthen runs_bug_on runs_mbind
    using assms by (intro conjI runs_alloc_descs) (auto simp: alloc_event_def elim: runs_weaken)
qed

text \<open>Filling in, and then ending and counting, make it a finished list.\<close>

lemma h2c_fill_runs:
  assumes K: "byte_order_ok K" and n: "0 < n" "n \<le> length l"
    and w: "sgms w m = Some s" "sgl_arrs w (sgl s) = Some l"
    and len: "\<forall>e \<in> set (take n l). unat (dma_length e) \<le> M" "258047 + M < 2 ^ 32"
    and c: "chained K bus (n - 1) raw ds"
  shows "runs (transfer_build K (drafted m n virt bus) ep to_dev non_incr force_new from_user)
      (put_descs (logged w es) virt ds)
      (\<lambda>last_desc w'. \<exists>j ds'. j < n \<and> last_desc = int j \<and> w' = put_descs (logged w es) virt ds'
       \<and> written K to_dev (advances non_incr from_user) ep (258047 + M) ds (Suc j) (dma_bytes (take n l)) ds')"
proof -
  have "unat (dma_length (l ! i)) \<le> M" if "i < n" for i
    using len(1) that n(2) by (metis in_set_conv_nth length_take min.absorb2 nth_take)
  then show ?thesis
    using n w len(2) c
    by (intro runs_weaken [OF transfer_build_runs [OF K, where s = s and l = l and ds = ds and n = n and M = M
       and bound = "258047 + M"]]) (auto simp: chained_def drafted_def)
qed

lemma h2c_finish_runs:
  assumes "j < length ds"
  shows "runs (h2c_finish K (drafted m n virt bus) (int j)) (put_descs w virt ds)
      (\<lambda>t w'. t = built m n virt bus j \<and> w' = put_descs w virt (finished K j ds))"
  using assms
  by (simp add: h2c_finish_def runs_transfer_terminate Let_def runs_set_adjacent [where n = "Suc j"]
      runs_transfer_dump [where n = "Suc j"] built_def drafted_def finished_def)

lemma h2c_build_runs:
  assumes K: "byte_order_ok K"
    and n: "0 < n" "n \<le> length l"
    and w: "sgms w m = Some s" "sgl_arrs w (sgl s) = Some l"
    and len: "\<forall>e \<in> set (take n l). unat (dma_length e) \<le> M" "258047 + M < 2 ^ 32"
    and al: "k_pci_alloc_consistent K w (xpcie_dev w) (word_of_int (int n) * sizeof_xdma_desc) = (virt, bus)" "virt \<noteq> 0"
  shows "runs (h2c_build K m (int n) ep to_dev non_incr force_new from_user) w (\<lambda>t w'. \<exists>j ds.
     j < n \<and> t = built m n virt bus j \<and> length ds = n
     \<and> ready K bus j to_dev (advances non_incr from_user) ep (dma_bytes (take n l)) (258047 + M) ds
     \<and> w' = put_descs (logged w [Dma (E_alloc_coherent (xpcie_dev w) (word_of_int (int n) * sizeof_xdma_desc) virt bus)]) virt ds)"
proof -
  let ?post = "\<lambda>t w'. \<exists>j ds. j < n \<and> t = built m n virt bus j \<and> length ds = n
     \<and> ready K bus j to_dev (advances non_incr from_user) ep (dma_bytes (take n l)) (258047 + M) ds
     \<and> w' = put_descs (logged w [alloc_event w n virt bus]) virt ds"
  let ?w1 = "logged w [alloc_event w n virt bus]" and ?raw = "map (k_coherent_desc K w) [0..<n]"
  have finish: "runs (h2c_finish K (drafted m n virt bus) (int j)) (put_descs ?w1 virt ds') ?post"
    if c: "chained K bus (n - 1) ?raw ds" and j: "j < n"
      and wr: "written K to_dev (advances non_incr from_user) ep (258047 + M) ds (Suc j) (dma_bytes (take n l)) ds'"
    for j ds ds'
  proof -
    have l: "length ds' = n" using wr c n(1) by (simp add: written_def chained_def)
    then have "length (finished K j ds') = n" by (simp add: finished_def)
    moreover have "ready K bus j to_dev (advances non_incr from_user) ep (dma_bytes (take n l)) (258047 + M) (finished K j ds')"
      using j by (intro finished_ready [OF K c _ wr]) simp
    ultimately show ?thesis
      using j l by (intro runs_weaken [OF h2c_finish_runs]) (simp, blast)
  qed
  have "runs (transfer_build K (drafted m n virt bus) ep to_dev non_incr force_new from_user) (put_descs ?w1 virt ds)
      (\<lambda>last_desc w'. runs (h2c_finish K (drafted m n virt bus) last_desc) w' ?post)"
    if "chained K bus (n - 1) ?raw ds" for ds
    by (rule runs_weaken [OF h2c_fill_runs [OF K n w len that]]) (use finish [OF that] in blast)
  then have "runs (h2c_build K m (int n) ep to_dev non_incr force_new from_user) w ?post"
    unfolding h2c_build_def runs_mbind runs_get_state
    by (intro runs_weaken [OF h2c_alloc_runs [OF n(1) al]]) (auto simp: Let_def drafted_def)
  then show ?thesis unfolding alloc_event_def .
qed

section \<open>The whole write\<close>

definition release_events :: "u64 \<Rightarrow> u64 \<Rightarrow> sg_mapping_t \<Rightarrow> u64 list \<Rightarrow> event list" where
  "release_events dev m s pgs =
     Dma (E_unmap_sg dev (sgl s) (int (length pgs)) DMA_TO_DEVICE) # put_events False pgs
     @ [Mem (E_kfree (sgl s)), Mem (E_kfree (pages s)), Mem (E_kfree m)]"

lemma h2c_release_runs:
  assumes "fresh_mapper w m s" and "mapped_pages s = int (length pgs)" and "take (length pgs) ps = pgs"
    and "length pgs \<le> length ps" and "sgm t = m"
  shows "runs (h2c_release t 1) (with_mapper w m s ps l) Q
    = Q () (logged w (release_events (xpcie_dev w) m s pgs))"
  using assms
  by (simp add: h2c_release_def pci_unmap_sg_def dir_of_def sgm_put_user_pages_runs [where n = "length pgs"]
      sg_destroy_mapper_runs fresh_mapper_def release_events_def)

text \<open>Everything a successful write of \<open>count\<close> bytes from \<open>buf\<close> does, in order.\<close>

definition write_events ::
  "kapi \<Rightarrow> world \<Rightarrow> u64 \<Rightarrow> event list \<Rightarrow> u64 \<Rightarrow> sg_mapping_t \<Rightarrow> u64 list \<Rightarrow> nat \<Rightarrow> u64 \<Rightarrow> u64 \<Rightarrow> nat
    \<Rightarrow> u32 list \<Rightarrow> event list" where
  "write_events K w buf hs m s pgs n virt bus j vs =
     hs @ map_events (xpcie_dev w) buf (sgl s) pgs n
     @ Dma (E_alloc_coherent (xpcie_dev w) (word_of_int (int n) * sizeof_xdma_desc) virt bus)
     # transfer_events K (engine_regs_h2c w) (engine_sgdma_regs w) bus (int (Suc j)) (vs ! 0) (vs ! 1) (vs ! 2) (vs ! 3)
     @ release_events (xpcie_dev w) m s pgs"

text \<open>
  The post-condition of a write that returns: the bytes of the buffer are described by a finished
  list of descriptors, which stays allocated, and the rest of the heap is as before.
\<close>

definition h2c_done ::
  "kapi \<Rightarrow> nat \<Rightarrow> world \<Rightarrow> u64 \<Rightarrow> u64 \<Rightarrow> u64 \<Rightarrow> int \<Rightarrow> world \<Rightarrow> bool" where
  "h2c_done K M w buf count ppos rc w' \<longleftrightarrow> rc = sint count \<and>
     (\<exists>hs m s pgs n virt bus j ds addrs vs.
        list_all heap_event hs \<and> fresh_mapper w m s
        \<and> pinned K buf False ((unat buf mod 4096 + unat count - 1) div 4096 + 1) pgs
        \<and> reaches K (trace w @ hs @ pin_events buf pgs) (xpcie_dev w) addrs
            (buffer_slots pgs (unat buf mod 4096) (unat count))
        \<and> ready K bus j 1 True ppos addrs (258047 + M) ds
        \<and> length ds = n \<and> n \<le> length pgs \<and> virt \<noteq> 0
        \<and> w' = put_descs (logged w (write_events K w buf hs m s pgs n virt bus j vs)) virt ds)"

lemma h2c_write_mapped:
  assumes K: "byte_order_ok K" and M: "258047 + M < 2 ^ 32"
    and map: "h2c_map_buffer K buf count 1 w = Inr ((m, int n), mapped_world w buf m n hs s ps l pgs)"
    and b: "mapped_buffer K M w buf count m n hs s ps l pgs" and n: "0 < n"
    and al: "k_pci_alloc_consistent K (mapped_world w buf m n hs s ps l pgs) (xpcie_dev w)
        (word_of_int (int n) * sizeof_xdma_desc) = (virt, bus)" "virt \<noteq> 0"
  shows "runs (xpcie_h2c_write K buf count ppos) w (h2c_done K M w buf count ppos)"
proof -
  let ?w1 = "mapped_world w buf m n hs s ps l pgs"
  let ?es = "hs @ map_events (xpcie_dev w) buf (sgl s) pgs n
     @ [Dma (E_alloc_coherent (xpcie_dev w) (word_of_int (int n) * sizeof_xdma_desc) virt bus)]"
  have lens: "n \<le> length l" "length pgs \<le> length ps" and fr: "fresh_mapper w m s" and mp: "mapped_pages s = int (length pgs)"
    and tk: "take (length pgs) ps = pgs"
    using b by (auto simp: mapped_buffer_def sized_def)
  have dev: "xpcie_dev ?w1 = xpcie_dev w" by (simp add: mapped_world_def)
  have build: "runs (h2c_build K m (int n) ppos 1 0 0 1) ?w1 (\<lambda>t w'. \<exists>j ds. j < n \<and> t = built m n virt bus j
     \<and> length ds = n \<and> ready K bus j 1 True ppos (dma_bytes (take n l)) (258047 + M) ds
     \<and> w' = with_mapper (put_descs (logged w ?es) virt ds) m s ps l)"
    using h2c_build_runs [OF K n lens(1), of ?w1 m s M virt bus ppos 1 0 0 1] al M b
    by (simp add: dev mapped_world_def mapped_buffer_def advances_def)
  have post: "h2c_done K M w buf count ppos (sint count) (logged (put_descs (logged w (?es @
       transfer_events K (engine_regs_h2c w) (engine_sgdma_regs w) bus (int (Suc j)) v0 v1 v2 v3)) virt ds)
       (release_events (xpcie_dev w) m s pgs))"
    if "ready K bus j 1 True ppos (dma_bytes (take n l)) (258047 + M) ds" "length ds = n" for j ds v0 v1 v2 v3
    unfolding h2c_done_def
    apply (intro conjI refl)
    apply (rule exI [of _ hs], rule exI [of _ m], rule exI [of _ s], rule exI [of _ pgs], rule exI [of _ n],
       rule exI [of _ virt], rule exI [of _ bus], rule exI [of _ j], rule exI [of _ ds], rule exI [of _ "dma_bytes (take n l)"],
       rule exI [of _ "[v0, v1, v2, v3]"])
    using that b n al by (simp add: mapped_buffer_def write_events_def)
  have run: "runs (mbind (transfer_start K dev (built m n virt bus j)) (\<lambda>_.
        mthen (h2c_release (built m n virt bus j) 1) (ret (sint count)))) (with_mapper (put_descs (logged w ?es) virt ds) m s ps l)
        (h2c_done K M w buf count ppos)"
    if "ready K bus j 1 True ppos (dma_bytes (take n l)) (258047 + M) ds" "length ds = n" for j ds dev
    unfolding runs_mbind
    by (rule runs_weaken [OF transfer_start_runs]) 
      (use post [OF that] fr mp tk lens in \<open>auto simp: h2c_release_runs built_def simp flip: logged_put_descs\<close>)
  have "runs (mbind (h2c_build K m (int n) ppos 1 0 0 1) (\<lambda>t. mbind (get_state xpcie_dev) (\<lambda>dev.
      mbind (transfer_start K dev t) (\<lambda>_. mthen (h2c_release t 1) (ret (sint count)))))) ?w1
      (h2c_done K M w buf count ppos)"
    unfolding runs_mbind [of "h2c_build a b c d e f g h" for a b c d e f g h]
  proof (rule runs_weaken [OF build], elim exE conjE)
    fix t w' j ds
    assume t: "t = built m n virt bus j" and w': "w' = with_mapper (put_descs (logged w ?es) virt ds) m s ps l"
      and d: "length ds = n" "ready K bus j 1 True ppos (dma_bytes (take n l)) (258047 + M) ds"
    show "runs (mbind (get_state xpcie_dev) (\<lambda>dev. mbind (transfer_start K dev t) (\<lambda>_.
        mthen (h2c_release t 1) (ret (sint count))))) w' (h2c_done K M w buf count ppos)"
      unfolding t w' runs_mbind [of "get_state f" for f] runs_get_state by (rule run [OF d(2,1)])
  qed
  then show ?thesis
    unfolding xpcie_h2c_write_def Let_def runs_mbind_eq [of "h2c_map_buffer K buf count 1" w, OF map] prod.case .
qed

text \<open>Every way a write can go, for every kernel with the documented behaviour.\<close>

definition h2c_result ::
  "kapi \<Rightarrow> nat \<Rightarrow> world \<Rightarrow> u64 \<Rightarrow> u64 \<Rightarrow> u64 \<Rightarrow> crash + (int \<times> world) \<Rightarrow> bool" where
  "h2c_result K M w buf count ppos r \<longleftrightarrow>
     (case r of Inl c \<Rightarrow> c = Bad_Pointer \<or> c = Bug_On | Inr (rc, w') \<Rightarrow> h2c_done K M w buf count ppos rc w')"

lemma h2c_write_result:
  assumes K: "kcalloc_ok K" "sg_api_ok K" "gup_ok K" "map_sg_ok K M" "byte_order_ok K" "258047 + M < 2 ^ 32"
    and n: "count \<noteq> 0" "unat buf + unat count \<le> 2 ^ 64" "unat count < 2 ^ 42"
    and nul: "sgms w 0 = None" "desc_arrs w 0 = None"
  shows "h2c_result K M w buf count ppos (xpcie_h2c_write K buf count ppos w)"
proof -
  consider (fail) c where "h2c_map_buffer K buf count 1 w = Inl c" "c = Bad_Pointer \<or> c = Bug_On"
    | (ok) m n hs s ps l pgs where "mapped_buffer K M w buf count m n hs s ps l pgs"
        "h2c_map_buffer K buf count 1 w = Inr ((m, int n), mapped_world w buf m n hs s ps l pgs)"
    using h2c_map_buffer_phase [OF K(1-4) n nul(1)] unfolding map_phase_def by blast
  then show ?thesis
  proof cases
    case fail
    then show ?thesis by (simp add: h2c_result_def xpcie_h2c_write_def mbind_def Let_def)
  next
    case ok
    let ?w1 = "mapped_world w buf m n hs s ps l pgs"
    obtain virt bus where al: "k_pci_alloc_consistent K ?w1 (xpcie_dev w) (word_of_int (int n) * sizeof_xdma_desc) = (virt, bus)"
      by (cases "k_pci_alloc_consistent K ?w1 (xpcie_dev w) (word_of_int (int n) * sizeof_xdma_desc)")
    have start: "xpcie_h2c_write K buf count ppos w = mbind (h2c_build K m (int n) ppos 1 0 0 1) (\<lambda>t.
      mbind (get_state xpcie_dev) (\<lambda>dev. mbind (transfer_start K dev t) (\<lambda>_.
      mthen (h2c_release t 1) (ret (sint count))))) ?w1"
      using ok(2) by (simp add: xpcie_h2c_write_def mbind_def Let_def)
    consider "n = 0" | "0 < n" "virt = 0" | "0 < n" "virt \<noteq> 0" by blast
    then show ?thesis
    proof cases
      case 1
      then show ?thesis using start by (simp add: h2c_result_def mbind_def h2c_build_none)
    next
      case 2
      then have "h2c_build K m (int n) ppos 1 0 0 1 ?w1 = Inl Bad_Pointer"
        using al nul(2) by (intro h2c_build_no_memory [where s = s and l = l and bus = bus]) (auto simp: mapped_world_def)
      then show ?thesis using start by (simp add: h2c_result_def mbind_def)
    next
      case 3
      from h2c_write_mapped [OF K(5,6) ok(2,1) 3(1) al 3(2), of ppos] show ?thesis
        by (auto simp: h2c_result_def runs_iff)
    qed
  qed
qed

section \<open>How a write fails\<close>

text \<open>
  \<open>sg_create_mapper\<close> returns a null pointer for an empty buffer, and the write goes on to use it.
\<close>

lemma h2c_write_null_mapper:
  assumes "sg_create_mapper K count w = Inr (0, w1)" and "sgms w1 0 = None"
  shows "xpcie_h2c_write K buf count ppos w = Inl Bad_Pointer"
  using assms
  by (simp add: xpcie_h2c_write_def h2c_map_buffer_def sgm_get_user_pages_def sgm_get_def mbind_def Let_def)

lemma h2c_write_empty:
  "sgms w 0 = None \<Longrightarrow> xpcie_h2c_write K buf 0 ppos w = Inl Bad_Pointer"
  by (rule h2c_write_null_mapper [of _ _ _ w]) (simp_all add: sg_create_mapper_def ret_def)

text \<open>The result of pinning is not looked at: a buffer that cannot be pinned hits a \<open>BUG_ON\<close>.\<close>

lemma h2c_write_pin_fails:
  assumes "sg_create_mapper K count w = Inr (m, w1)"
    and "sgm_get_user_pages K m buf count 1 w1 = Inr (rc, w2)"
    and "sgms w2 m = Some s" and "mapped_pages s = 0"
  shows "xpcie_h2c_write K buf count ppos w = Inl Bug_On"
  using assms
  by (simp add: xpcie_h2c_write_def h2c_map_buffer_def mbind_def Let_def h2c_map_list_stops)

lemma h2c_write_map_fails:
  assumes "h2c_map_buffer K buf count 1 w = Inr ((m, 0), w1)"
  shows "xpcie_h2c_write K buf count ppos w = Inl Bug_On"
  using assms by (simp add: xpcie_h2c_write_def mbind_def Let_def h2c_build_none)

lemma h2c_write_short:
  assumes K: "kcalloc_ok K" "sg_api_ok K" "gup_ok K"
    and n: "cnt \<noteq> 0" "unat buf + unat cnt \<le> 2 ^ 64" "unat cnt < 2 ^ 42"
    and w: "sgms w 0 = None"
    and short: "\<And>v. fst (k_get_user_pages_fast K v buf
      (int ((unat buf mod 4096 + unat cnt - 1) div 4096 + 1)) False) < int ((unat buf mod 4096 + unat cnt - 1) div 4096 + 1)"
  shows "xpcie_h2c_write K buf cnt ppos w \<in> {Inl Bug_On, Inl Bad_Pointer}"
proof -
  define N where "N = (unat buf mod 4096 + unat cnt - 1) div 4096 + 1"
  obtain m w1 where c: "sg_create_mapper K cnt w = Inr (m, w1)" "created w cnt m w1"
    using sg_create_mapper_runs [OF K(1,2) n(3), where w = w] by (auto simp: runs_iff)
  show ?thesis
  proof (cases "m = 0")
    case True
    then have "sgms w1 0 = None" using c(2) w by (auto simp: created_def)
    then show ?thesis using h2c_write_null_mapper c(1) True by simp
  next
    case False
    then obtain hs s ps l where w1: "w1 = with_mapper (logged w hs) m s ps l"
      and s: "sized s ps l" "max_pages s = int (mapper_pages cnt)" "mapped_pages s = 0"
      using c(2) by (auto simp: created_def)
    have N: "int N \<le> max_pages s"
      using pages_bound [of "unat buf mod 4096" "unat cnt"] by (simp add: s(2) mapper_pages_def N_def)
    have short': "fst (k_get_user_pages_fast K v buf (int N) ((1 :: int) = 0)) < int N" for v
      using short [of v] by (simp add: N_def)
    obtain rc w2 where g: "sgm_get_user_pages K m buf cnt 1 w1 = Inr (rc, w2)" "sgms w2 m = Some (s\<lparr>mapped_pages := 0\<rparr>)"
      using sgm_get_user_pages_short [OF K(2,3) n(1,2) less_imp_le [OF n(3)] N_def N s(1,3) short', of m "logged w hs"]
      unfolding w1 runs_iff by blast
    show ?thesis using h2c_write_pin_fails [OF c(1) g] by simp
  qed
qed

end
