(* ===== verification/CharDev.thy ===== *)
theory CharDev
  imports PciDevice H2cWrite
begin

text \<open>
  The file operations of the three character devices other than the host-to-card write: the
  trivial open, read, write and close operations and the two mmap operations, which map a base
  address register into a process.
\<close>

section \<open>Operations without effect\<close>

text \<open>Arguments that an operation ignores (the file, the inode, the buffer, the position) are left out.\<close>

definition xpcie_user_open :: "(world, int) prog" where
  "xpcie_user_open = ret 0"

definition xpcie_user_read :: "u64 \<Rightarrow> (world, int) prog" where
  "xpcie_user_read cnt = ret 0"

definition xpcie_user_write :: "u64 \<Rightarrow> (world, int) prog" where
  "xpcie_user_write cnt = ret 0"

definition xpcie_user_close :: "(world, int) prog" where
  "xpcie_user_close = ret 0"

definition xpcie_h2c_open :: "(world, int) prog" where
  "xpcie_h2c_open = ret 0"

definition xpcie_h2c_read :: "u64 \<Rightarrow> (world, int) prog" where
  "xpcie_h2c_read cnt = ret (sint cnt)"

definition xpcie_h2c_close :: "(world, int) prog" where
  "xpcie_h2c_close = ret 0"

definition xpcie_c2h_close :: "(world, int) prog" where
  "xpcie_c2h_close = ret 0"

section \<open>Mapping a base address register\<close>

record vm_area_struct =
  vm_start :: u64
  vm_end :: u64
  vm_pgoff :: u64
  vm_page_prot :: u64
  vm_flags :: u64

definition io_remap_pfn_range :: "kapi \<Rightarrow> u64 \<Rightarrow> u64 \<Rightarrow> u64 \<Rightarrow> (world, int) prog" where
  "io_remap_pfn_range K start pfn sz = mbind (get_state (\<lambda>w. k_io_remap_pfn_range K w start pfn sz)) (\<lambda>rc.
     mthen (emit (Pci (E_remap_pfn start pfn sz rc))) (ret rc))"

text \<open>
  The body that \<open>xpcie_user_mmap\<close> and \<open>xpcie_h2c_mmap\<close> share up to the number of the base
  address register. The result includes the area as the operation leaves it.
\<close>

definition mmap_bar :: "kapi \<Rightarrow> int \<Rightarrow> vm_area_struct \<Rightarrow> (world, int \<times> vm_area_struct) prog" where
  "mmap_bar K barno vma =
     mbind (get_state xpcie_dev) (\<lambda>dev.
     (let off = push_bit PAGE_SHIFT (vm_pgoff vma);
          phys = k_pci_resource_start K dev barno + off;
          vsize = vm_end vma - vm_start vma;
          psize = k_pci_resource_end K dev barno - k_pci_resource_start K dev barno + 1 - off
      in if vsize > psize then ret (- EINVAL, vma)
         else
           let vma = vma\<lparr>vm_page_prot := k_pgprot_noncached K (vm_page_prot vma)\<rparr>;
               vma = vma\<lparr>vm_flags := vm_flags vma OR VMEM_FLAGS K\<rparr>
           in mbind (io_remap_pfn_range K (vm_start vma) (drop_bit PAGE_SHIFT phys) vsize) (\<lambda>rc.
              if rc \<noteq> 0 then ret (- EAGAIN, vma) else ret (0, vma))))"

definition xpcie_user_mmap :: "kapi \<Rightarrow> vm_area_struct \<Rightarrow> (world, int \<times> vm_area_struct) prog" where
  "xpcie_user_mmap K vma = (let bar = 0 in mmap_bar K bar vma)"

definition xpcie_h2c_mmap :: "kapi \<Rightarrow> vm_area_struct \<Rightarrow> (world, int \<times> vm_area_struct) prog" where
  "xpcie_h2c_mmap K vma = (let bar = 1 in mmap_bar K bar vma)"

section \<open>The contract of a mapping operation\<close>

text \<open>
  A window of the physical address space, \<open>len\<close> bytes from \<open>base\<close> on, and an operation that
  maps a part of it at the offset the caller names and leaves the caller's area as \<open>area\<close> says. The
  contract says what the operation does for
  an offset inside the window; it promises nothing beyond.
\<close>

definition vma_offset :: "vm_area_struct \<Rightarrow> nat" where
  "vma_offset vma = unat (push_bit PAGE_SHIFT (vm_pgoff vma))"

definition vma_size :: "vm_area_struct \<Rightarrow> nat" where
  "vma_size vma = unat (vm_end vma - vm_start vma)"

definition window_ok :: "nat \<Rightarrow> nat \<Rightarrow> bool" where
  "window_ok base len \<longleftrightarrow> 0 < len \<and> base mod 4096 = 0 \<and> base + len < 2 ^ 64"

text \<open>The physical addresses a remap event gives to the process.\<close>

definition exposed :: "event \<Rightarrow> nat \<times> nat" where
  "exposed e = (case e of Pci (E_remap_pfn start pfn sz rc) \<Rightarrow> (4096 * unat pfn, unat sz) | _ \<Rightarrow> (0, 0))"

lemma exposed_remap [simp]: "exposed (Pci (E_remap_pfn start pfn sz rc)) = (4096 * unat pfn, unat sz)"
  by (simp add: exposed_def)

locale window_mmap =
  fixes mm :: "vm_area_struct \<Rightarrow> (world, int \<times> vm_area_struct) prog"
    and base len :: "world \<Rightarrow> nat" and area :: "vm_area_struct \<Rightarrow> vm_area_struct"
  assumes mm_too_big: "window_ok (base w) (len w) \<Longrightarrow> vma_offset vma \<le> len w \<Longrightarrow>
      len w - vma_offset vma < vma_size vma \<Longrightarrow> mm vma w = Inr ((- EINVAL, vma), w)"
    and mm_fits: "window_ok (base w) (len w) \<Longrightarrow> vma_offset vma + vma_size vma \<le> len w \<Longrightarrow>
      runs (mm vma) w (\<lambda>(rc, vma') w'. \<exists>e. w' = logged w [e]
        \<and> exposed e = (base w + vma_offset vma, vma_size vma) \<and> rc \<in> {0, - EAGAIN} \<and> vma' = area vma)"
begin

text \<open>What becomes visible lies inside the window, and is all of the area if the operation succeeds.\<close>

lemma inside:
  assumes "window_ok (base w) (len w)" and "vma_offset vma \<le> len w"
  shows "runs (mm vma) w (\<lambda>(rc, vma') w'. rc \<in> {0, - EINVAL, - EAGAIN} \<and> (\<exists>es. w' = logged w es
     \<and> (\<forall>e \<in> set es. base w \<le> fst (exposed e) \<and> fst (exposed e) + snd (exposed e) \<le> base w + len w)
     \<and> (rc = 0 \<longrightarrow> vma' = area vma \<and> map exposed es = [(base w + vma_offset vma, vma_size vma)])))"
proof (cases "vma_offset vma + vma_size vma \<le> len w")
  case True
  show ?thesis
    by (rule runs_weaken [OF mm_fits [OF assms(1) True]]) (use True in \<open>auto intro: exI [where x = "[_]"]\<close>)
next
  case False
  then have "mm vma w = Inr ((- EINVAL, vma), w)"
    using assms by (intro mm_too_big) auto
  then show ?thesis
    by (auto simp: runs_def EINVAL_def intro: exI [where x = "[]"])
qed

end

section \<open>Both mapping operations meet the contract\<close>

text \<open>A resource is given by its first and its last address.\<close>

definition bar_base :: "kapi \<Rightarrow> int \<Rightarrow> world \<Rightarrow> nat" where
  "bar_base K barno w = unat (k_pci_resource_start K (xpcie_dev w) barno)"

definition bar_len :: "kapi \<Rightarrow> int \<Rightarrow> world \<Rightarrow> nat" where
  "bar_len K barno w = unat (k_pci_resource_end K (xpcie_dev w) barno) + 1
     - unat (k_pci_resource_start K (xpcie_dev w) barno)"

text \<open>The area of a process as a mapping of device memory: not cached, and flagged as such.\<close>

definition device_area :: "kapi \<Rightarrow> vm_area_struct \<Rightarrow> vm_area_struct" where
  "device_area K vma = vma\<lparr>vm_page_prot := k_pgprot_noncached K (vm_page_prot vma),
     vm_flags := vm_flags vma OR VMEM_FLAGS K\<rparr>"

lemma psize_eq:
  fixes first last off :: u64
  assumes "unat first \<le> unat last" and "unat last + 1 - unat first < 2 ^ 64" and "unat off \<le> unat last + 1 - unat first"
  shows "unat (last - first + 1 - off) = unat last + 1 - unat first - unat off"
proof -
  have "unat (last - first) = unat last - unat first"
    using assms(1) by (simp add: unat_sub word_le_nat_alt)
  then have "unat (last - first + 1) = unat last + 1 - unat first"
    using assms(1,2) by (subst unat_add_lem [THEN iffD1]) auto
  then show ?thesis
    using assms(3) by (subst unat_sub) (simp_all add: word_le_nat_alt)
qed

lemma vma_offset_aligned: "vma_offset vma mod 4096 = 0"
proof -
  have "unat v mod 4096 = unat (take_bit 12 v)" for v :: u64
    by (simp add: take_bit_eq_mod unat_mod)
  moreover have "take_bit 12 (push_bit 12 v) = 0" for v :: u64
    by (rule bit_word_eqI) (auto simp: bit_simps)
  ultimately show ?thesis by (simp add: vma_offset_def PAGE_SHIFT_def)
qed

lemma exposed_phys:
  assumes w: "window_ok (bar_base K barno w) (bar_len K barno w)"
    and off: "bar_base K barno w + vma_offset vma < 2 ^ 64"
  shows "4096 * unat (drop_bit PAGE_SHIFT (k_pci_resource_start K (xpcie_dev w) barno + push_bit PAGE_SHIFT (vm_pgoff vma)))
    = bar_base K barno w + vma_offset vma"
proof -
  let ?phys = "k_pci_resource_start K (xpcie_dev w) barno + push_bit PAGE_SHIFT (vm_pgoff vma)"
  have sum: "unat ?phys = bar_base K barno w + vma_offset vma"
    using off by (subst unat_add_lem [THEN iffD1]) (auto simp: bar_base_def vma_offset_def)
  have "4096 dvd bar_base K barno w + vma_offset vma"
    using w vma_offset_aligned [of vma] by (auto simp: window_ok_def intro!: dvd_add)
  moreover have "unat (drop_bit PAGE_SHIFT ?phys) = (bar_base K barno w + vma_offset vma) div 4096"
    unfolding sum [symmetric] PAGE_SHIFT_def by (simp add: drop_bit_eq_div unat_div)
  ultimately show ?thesis by simp
qed

lemma mmap_bar_window:
  fixes K barno w
  defines "base \<equiv> bar_base K barno w" and "len \<equiv> bar_len K barno w"
  assumes w: "window_ok base len" and off: "vma_offset vma \<le> len"
  shows "len - vma_offset vma < vma_size vma \<Longrightarrow> mmap_bar K barno vma w = Inr ((- EINVAL, vma), w)"
    and "vma_offset vma + vma_size vma \<le> len \<Longrightarrow> runs (mmap_bar K barno vma) w (\<lambda>(rc, vma') w'.
      \<exists>e. w' = logged w [e] \<and> exposed e = (base + vma_offset vma, vma_size vma) \<and> rc \<in> {0, - EAGAIN}
      \<and> vma' = device_area K vma)"
proof -
  let ?first = "k_pci_resource_start K (xpcie_dev w) barno" and ?last = "k_pci_resource_end K (xpcie_dev w) barno"
  let ?off = "push_bit PAGE_SHIFT (vm_pgoff vma)"
  have le: "unat ?first \<le> unat ?last" "unat ?last + 1 - unat ?first < 2 ^ 64"
    using w by (auto simp: window_ok_def len_def bar_len_def)
  have ps: "unat (?last - ?first + 1 - ?off) = len - vma_offset vma"
    using psize_eq [OF le, of ?off] off by (simp add: len_def bar_len_def vma_offset_def)
  then have cmp: "vm_end vma - vm_start vma > ?last - ?first + 1 - ?off \<longleftrightarrow> len - vma_offset vma < vma_size vma"
    by (simp add: word_less_nat_alt vma_size_def)
  show "len - vma_offset vma < vma_size vma \<Longrightarrow> mmap_bar K barno vma w = Inr ((- EINVAL, vma), w)"
    using cmp by (simp add: mmap_bar_def prog_defs Let_def)
  assume fits: "vma_offset vma + vma_size vma \<le> len"
  have ex: "4096 * unat (drop_bit PAGE_SHIFT (?first + ?off)) = base + vma_offset vma"
    using exposed_phys [OF w [unfolded base_def len_def]] w off
    by (simp add: window_ok_def base_def)
  have "\<not> vm_end vma - vm_start vma > ?last - ?first + 1 - ?off"
    using cmp fits by simp
  then show "runs (mmap_bar K barno vma) w (\<lambda>(rc, vma') w'.
      \<exists>e. w' = logged w [e] \<and> exposed e = (base + vma_offset vma, vma_size vma) \<and> rc \<in> {0, - EAGAIN}
      \<and> vma' = device_area K vma)"
    using ex by (auto simp: mmap_bar_def io_remap_pfn_range_def Let_def vma_size_def device_area_def intro!: exI [where x = "Pci _"])
qed

lemma window_mmap_bar: "window_mmap (mmap_bar K barno) (bar_base K barno) (bar_len K barno) (device_area K)"
proof (rule window_mmap.intro)
  fix w vma
  assume w: "window_ok (bar_base K barno w) (bar_len K barno w)"
  show "mmap_bar K barno vma w = Inr ((- EINVAL, vma), w)"
    if "vma_offset vma \<le> bar_len K barno w" "bar_len K barno w - vma_offset vma < vma_size vma"
    using mmap_bar_window(1) [OF w that(1)] that(2) by blast
  show "runs (mmap_bar K barno vma) w (\<lambda>(rc, vma') w'. \<exists>e. w' = logged w [e]
        \<and> exposed e = (bar_base K barno w + vma_offset vma, vma_size vma) \<and> rc \<in> {0, - EAGAIN}
        \<and> vma' = device_area K vma)"
    if fits: "vma_offset vma + vma_size vma \<le> bar_len K barno w"
    by (rule mmap_bar_window(2) [OF w _ fits]) (use fits in simp)
qed

interpretation user_mmap: window_mmap "xpcie_user_mmap K" "bar_base K 0" "bar_len K 0" "device_area K" for K
  unfolding xpcie_user_mmap_def Let_def by (rule window_mmap_bar)

interpretation h2c_mmap: window_mmap "xpcie_h2c_mmap K" "bar_base K 1" "bar_len K 1" "device_area K" for K
  unfolding xpcie_h2c_mmap_def Let_def by (rule window_mmap_bar)

text \<open>
  The contract ends where the offset leaves the window: the remaining length is computed by an
  unsigned subtraction that wraps around, so the test lets every area pass.
\<close>

lemma mmap_bar_beyond:
  fixes K barno w
  defines "base \<equiv> bar_base K barno w" and "len \<equiv> bar_len K barno w"
  assumes w: "window_ok base len" and off: "len < vma_offset vma" "base + vma_offset vma < 2 ^ 64"
    and sz: "vma_size vma \<le> 2 ^ 64 - (vma_offset vma - len)"
  shows "runs (mmap_bar K barno vma) w (\<lambda>(rc, vma') w'.
      \<exists>e. w' = logged w [e] \<and> exposed e = (base + vma_offset vma, vma_size vma) \<and> rc \<in> {0, - EAGAIN})"
proof -
  let ?first = "k_pci_resource_start K (xpcie_dev w) barno" and ?last = "k_pci_resource_end K (xpcie_dev w) barno"
  let ?off = "push_bit PAGE_SHIFT (vm_pgoff vma)"
  have le: "unat ?first \<le> unat ?last" "unat ?last + 1 - unat ?first < 2 ^ 64"
    using w by (auto simp: window_ok_def len_def bar_len_def)
  have l: "unat (?last - ?first + 1) = len"
    using psize_eq [OF le, of 0] by (simp add: len_def bar_len_def)
  have "unat (?last - ?first + 1 - ?off) = 2 ^ 64 - (vma_offset vma - len)"
    using off(1) l by (subst unat_sub_if') (auto simp: vma_offset_def)
  then have "\<not> vm_end vma - vm_start vma > ?last - ?first + 1 - ?off"
    using sz by (simp add: word_less_nat_alt vma_size_def)
  then show ?thesis
    using exposed_phys [OF w [unfolded base_def len_def] off(2) [unfolded base_def]]
    by (auto simp: mmap_bar_def io_remap_pfn_range_def Let_def vma_size_def base_def intro!: exI [where x = "Pci _"])
qed

end
