(* ===== verification/Launch.thy ===== *)
theory Launch
  imports Engine
begin

text \<open>
  The register file of the device: what the accesses in a trace leave in the registers, and with
  which list of descriptors the engine is launched each time it is started. Two transfers run one
  after the other launch their own lists; the driver has no lock, and two transfers whose register
  accesses interleave may not.
\<close>

section \<open>Registers after a sequence of accesses\<close>

fun reg_write :: "event \<Rightarrow> (u64 \<Rightarrow> u32) \<Rightarrow> u64 \<Rightarrow> u32" where
  "reg_write (Io (E_iowrite32 v a)) m = m(a := v)"
| "reg_write e m = m"

definition after :: "event list \<Rightarrow> (u64 \<Rightarrow> u32) \<Rightarrow> u64 \<Rightarrow> u32" where
  "after es m = fold reg_write es m"

lemma after_simps [simp]: "after [] m = m" "after (e # es) m = after es (reg_write e m)"
  "after (xs @ ys) m = after ys (after xs m)"
  by (simp_all add: after_def)

text \<open>
  The list the registers at \<open>s\<close> name: its bus address and the number of further descriptors
  adjacent to the first. The engine with its registers at \<open>h\<close> reads them when it is started.
\<close>

definition named_list :: "u64 \<Rightarrow> (u64 \<Rightarrow> u32) \<Rightarrow> u64 \<times> u32" where
  "named_list s m = (dma_join (m (s + 0x84)) (m (s + 0x80)), m (s + 0x88))"

fun launches :: "u64 \<Rightarrow> u64 \<Rightarrow> (u64 \<Rightarrow> u32) \<Rightarrow> event list \<Rightarrow> (u64 \<times> u32) list" where
  "launches h s m [] = []"
| "launches h s m (e # es) =
     (if e = Io (E_iowrite32 engine_start_control (h + 0x04)) then [named_list s m] else [])
       @ launches h s (reg_write e m) es"

lemma launches_append [simp]:
  "launches h s m (xs @ ys) = launches h s m xs @ launches h s (after xs m) ys"
  by (induction xs arbitrary: m) auto

section \<open>A transfer launches its own list\<close>

text \<open>A host with the byte order of the device, and the register blocks as \<open>map_bars\<close> places them.\<close>

definition little_host :: "kapi \<Rightarrow> bool" where
  "little_host K \<longleftrightarrow> (\<forall>x. cpu_to_le32 K x = x)"

definition blocks_at :: "u64 \<Rightarrow> u64 \<Rightarrow> bool" where
  "blocks_at h s \<longleftrightarrow> s = h + 4 * TARGET_SPACING"

definition own_list :: "u64 \<Rightarrow> int \<Rightarrow> u64 \<times> u32" where
  "own_list bus adj = (bus, word_of_int (first_extra_adj adj))"

text \<open>The accesses before the start, and those from the start on.\<close>

definition program_events :: "kapi \<Rightarrow> u64 \<Rightarrow> u64 \<Rightarrow> u64 \<Rightarrow> int \<Rightarrow> u32 \<Rightarrow> event list" where
  "program_events K h s bus adj v = take 4 (transfer_events K h s bus adj v 0 0 0)"

lemma transfer_events_split:
  "transfer_events K h s bus adj v0 v1 v2 v3 = program_events K h s bus adj v0 @ engine_events h 2000 v1 v2 v3"
  by (simp add: transfer_events_def program_events_def)

lemma block_addresses:
  assumes "blocks_at h s"
  shows "h + 4 \<noteq> s + 0x80" "h + 4 \<noteq> s + 0x84" "h + 4 \<noteq> s + 0x88"
  using assms by (simp_all add: blocks_at_def TARGET_SPACING_def add.assoc)

lemma program_launches:
  assumes "blocks_at h s"
  shows "launches h s m (program_events K h s bus adj v) = []"
  using block_addresses [OF assms]
  by (simp add: program_events_def transfer_events_def engine_events_def)

lemma program_names:
  assumes "little_host K"
  shows "named_list s (after (program_events K h s bus adj v) m) = own_list bus adj"
  using assms
  by (simp add: program_events_def transfer_events_def engine_events_def named_list_def own_list_def little_host_def)

lemma engine_launches:
  assumes "blocks_at h s"
  shows "launches h s m (engine_events h ms v1 v2 v3) = [named_list s m]"
    and "named_list s (after (engine_events h ms v1 v2 v3) m) = named_list s m"
    and "after (engine_events h ms v1 v2 v3) m (h + 0x04) = 0"
  using block_addresses [OF assms]
  by (simp_all add: engine_events_def named_list_def engine_start_control_value)

lemma transfer_launches:
  assumes "little_host K" and "blocks_at h s"
  shows "launches h s m (transfer_events K h s bus adj v0 v1 v2 v3) = [own_list bus adj]"
    and "after (transfer_events K h s bus adj v0 v1 v2 v3) m (h + 0x04) = 0"
  by (simp_all add: transfer_events_split engine_launches [OF assms(2)] program_launches [OF assms(2)]
      program_names [OF assms(1)])

text \<open>
  Transfers that run one after another launch their lists in that order, each once, and leave the
  engine stopped.
\<close>

definition launched_all :: "u64 \<Rightarrow> u64 \<Rightarrow> xdma_transfer list \<Rightarrow> event list \<Rightarrow> bool" where
  "launched_all h s ts es \<longleftrightarrow> (\<forall>m. launches h s m es = map (\<lambda>t. own_list (desc_bus t) (desc_adjacent t)) ts
     \<and> after es m (h + 0x04) = (if ts = [] then m (h + 0x04) else 0))"

lemma launched_all_Cons:
  assumes "little_host K" and "blocks_at h s" and "launched_all h s ts es"
  shows "launched_all h s (t # ts) (transfer_events K h s (desc_bus t) (desc_adjacent t) v0 v1 v2 v3 @ es)"
  using assms(3) by (simp add: launched_all_def transfer_launches [OF assms(1,2)])

definition run_transfers :: "kapi \<Rightarrow> u64 \<Rightarrow> xdma_transfer list \<Rightarrow> (world, unit) prog" where
  "run_transfers K pdev ts = forM ts (\<lambda>t. mbind (transfer_start K pdev t) (\<lambda>rc. bug_on (rc \<noteq> 0)))"

lemma run_transfers_launch:
  assumes "little_host K" and "blocks_at (engine_regs_h2c w) (engine_sgdma_regs w)"
  shows "runs (run_transfers K pdev ts) w (\<lambda>_ w'. \<exists>es. w' = logged w es
    \<and> launched_all (engine_regs_h2c w) (engine_sgdma_regs w) ts es)"
  using assms(2)
proof (induction ts arbitrary: w)
  case Nil
  show ?case by (auto simp: run_transfers_def launched_all_def intro: exI [of _ "[]"])
next
  case (Cons t ts)
  let ?h = "engine_regs_h2c w" and ?s = "engine_sgdma_regs w"
  have "runs (transfer_start K pdev t) w (\<lambda>rc w1. rc = 0
    \<and> runs (run_transfers K pdev ts) w1 (\<lambda>_ w'. \<exists>es. w' = logged w es \<and> launched_all ?h ?s (t # ts) es))"
  proof (rule runs_weaken [OF transfer_start_runs], elim conjE exE, intro conjI, assumption)
    fix rc w1 v0 v1 v2 v3
    let ?es = "transfer_events K ?h ?s (desc_bus t) (desc_adjacent t) v0 v1 v2 v3"
    assume w1: "w1 = logged w ?es"
    have "runs (run_transfers K pdev ts) w1 (\<lambda>_ w'. \<exists>es. w' = logged w1 es \<and> launched_all ?h ?s ts es)"
      using Cons.IH [of w1] Cons.prems by (simp add: w1)
    then show "runs (run_transfers K pdev ts) w1 (\<lambda>_ w'. \<exists>es. w' = logged w es \<and> launched_all ?h ?s (t # ts) es)"
      by (rule runs_weaken) (use launched_all_Cons [OF assms(1) Cons.prems] w1 in fastforce)
  qed
  then show ?case by (simp add: run_transfers_def)
qed

section \<open>Two transfers at once\<close>

lemma shuffles_appendI:
  "xs @ ys \<in> shuffles xs ys" "ys @ xs \<in> shuffles xs ys"
  "zs \<in> shuffles xs ys \<Longrightarrow> ps @ zs \<in> shuffles (ps @ xs) ys"
  "zs \<in> shuffles xs ys \<Longrightarrow> ps @ zs \<in> shuffles xs (ps @ ys)"
proof -
  show l: "zs \<in> shuffles xs ys \<Longrightarrow> ps @ zs \<in> shuffles (ps @ xs) ys" for zs xs ys :: "'a list" and ps
    by (induction ps) (auto intro: Cons_in_shuffles_leftI)
  show r: "zs \<in> shuffles xs ys \<Longrightarrow> ps @ zs \<in> shuffles xs (ps @ ys)" for zs xs ys :: "'a list" and ps
    by (induction ps) (auto intro: Cons_in_shuffles_rightI)
  show "xs @ ys \<in> shuffles xs ys" using l [of ys "[]" ys xs] by simp
  show "ys @ xs \<in> shuffles xs ys" using r [of xs xs "[]" ys] by simp
qed

text \<open>The second transfer programs its list between the programming and the start of the first.\<close>

lemma interleaved_launches:
  assumes "little_host K" and "blocks_at h s"
  shows "\<exists>es \<in> shuffles (transfer_events K h s b1 a1 v0 v1 v2 v3) (transfer_events K h s b2 a2 u0 u1 u2 u3).
    \<forall>m. launches h s m es = [own_list b2 a2, own_list b2 a2]"
proof (rule bexI)
  let ?p1 = "program_events K h s b1 a1 v0" and ?p2 = "program_events K h s b2 a2 u0"
  let ?e1 = "engine_events h 2000 v1 v2 v3" and ?e2 = "engine_events h 2000 u1 u2 u3"
  show "?p1 @ ?p2 @ ?e1 @ ?e2 \<in> shuffles (transfer_events K h s b1 a1 v0 v1 v2 v3) (transfer_events K h s b2 a2 u0 u1 u2 u3)"
    unfolding transfer_events_split by (intro shuffles_appendI)
  show "\<forall>m. launches h s m (?p1 @ ?p2 @ ?e1 @ ?e2) = [own_list b2 a2, own_list b2 a2]"
    by (simp add: engine_launches [OF assms(2)] program_launches [OF assms(2)] program_names [OF assms(1)])
qed

text \<open>
  The address of a list is written in two halves. When the second transfer writes both of its halves
  between those of the first, the engine is started at an address that is neither's.
\<close>

lemma torn_launches:
  assumes "little_host K" and "blocks_at h s"
  shows "\<exists>es \<in> shuffles (transfer_events K h s b1 a1 v0 v1 v2 v3) (transfer_events K h s b2 a2 u0 u1 u2 u3).
    \<forall>m. map fst (launches h s m es) = replicate 2 (dma_join (ucast (PCI_DMA_H b1)) (ucast (PCI_DMA_L b2)))"
proof (rule bexI)
  let ?p1 = "program_events K h s b1 a1 v0" and ?p2 = "program_events K h s b2 a2 u0"
  let ?e1 = "engine_events h 2000 v1 v2 v3" and ?e2 = "engine_events h 2000 u1 u2 u3"
  let ?t1 = "transfer_events K h s b1 a1 v0 v1 v2 v3" and ?t2 = "transfer_events K h s b2 a2 u0 u1 u2 u3"
  have "take 3 ?p1 @ ?p2 @ (drop 3 ?p1 @ ?e1) @ ?e2 \<in> shuffles (take 3 ?p1 @ drop 3 ?p1 @ ?e1) (?p2 @ ?e2)"
    by (intro shuffles_appendI)
  also have "take 3 ?p1 @ drop 3 ?p1 @ ?e1 = ?t1" by (simp add: transfer_events_split)
  also have "?p2 @ ?e2 = ?t2" by (simp add: transfer_events_split)
  finally show "take 3 ?p1 @ ?p2 @ drop 3 ?p1 @ ?e1 @ ?e2 \<in> shuffles ?t1 ?t2" by simp
  have l: "launches h s m (take 3 ?p1) = []" "launches h s m (drop 3 ?p1) = []" for m
    using block_addresses [OF assms(2)] by (simp_all add: program_events_def transfer_events_def numeral_3_eq_3)
  have n: "named_list s (after (drop 3 ?p1) (after ?p2 m)) = (dma_join (ucast (PCI_DMA_H b1)) (ucast (PCI_DMA_L b2)), word_of_int (first_extra_adj a2))" for m
    using assms(1) by (simp add: program_events_def transfer_events_def named_list_def little_host_def numeral_3_eq_3)
  show "\<forall>m. map fst (launches h s m (take 3 ?p1 @ ?p2 @ drop 3 ?p1 @ ?e1 @ ?e2))
      = replicate 2 (dma_join (ucast (PCI_DMA_H b1)) (ucast (PCI_DMA_L b2)))"
    by (simp add: engine_launches [OF assms(2)] program_launches [OF assms(2)] l n numeral_2_eq_2)
qed

end
