(* ===== verification/Lifecycle.thy ===== *)
theory Lifecycle
  imports PciDevice H2cWrite CharDev Launch
begin

text \<open>
  Loading and unloading the module, and the life of the driver as a state machine: the steps the
  kernel can make it take and what holds in every state it can reach.
\<close>

section \<open>Module initialisation and exit\<close>

definition DRV_NAME :: string where "DRV_NAME = ''xpcie''"
definition DRV_NAME_USER :: string where "DRV_NAME_USER = DRV_NAME @ ''_user''"
definition DRV_NAME_H2C :: string where "DRV_NAME_H2C = DRV_NAME @ ''_h2c''"
definition DRV_NAME_C2H :: string where "DRV_NAME_C2H = DRV_NAME @ ''_c2h''"

definition user_minor :: int where "user_minor = 1"
definition h2c_minor :: int where "h2c_minor = 2"
definition c2h_minor :: int where "c2h_minor = 3"

definition register_chrdev :: "kapi \<Rightarrow> string \<Rightarrow> fops_ref \<Rightarrow> (world, int) prog" where
  "register_chrdev K name fops = mbind (get_state (\<lambda>w. k_register_chrdev K w name)) (\<lambda>rc.
     mthen (emit (Reg (E_register_chrdev name fops rc))) (ret rc))"

definition device_create :: "kapi \<Rightarrow> int \<Rightarrow> int \<Rightarrow> string \<Rightarrow> (world, u64) prog" where
  "device_create K major minor name = mbind (get_state (\<lambda>w. k_device_create K w major minor name)) (\<lambda>p.
     mthen (emit (Reg (E_device_create major minor name p))) (ret p))"

definition create_devices :: "kapi \<Rightarrow> (world, int) prog" where
  "create_devices K =
     mbind (get_state (k_class_create K)) (\<lambda>p.
     mthen (emit (Reg (E_class_create p)))
     (mthen (modify (\<lambda>w. w\<lparr>xpcie_class := p\<rparr>))
     (if k_IS_ERR K p then ret (- 1)
      else
        mbind (get_state major_user) (\<lambda>mj.
        mbind (device_create K mj user_minor DRV_NAME_USER) (\<lambda>d.
        mthen (modify (\<lambda>w. w\<lparr>xpcie_class_user := d\<rparr>))
        (mbind (get_state major_h2c) (\<lambda>mj.
         mbind (device_create K mj h2c_minor DRV_NAME_H2C) (\<lambda>d.
         mthen (modify (\<lambda>w. w\<lparr>xpcie_class_h2c := d\<rparr>))
         (mbind (get_state major_c2h) (\<lambda>mj.
          mbind (device_create K mj c2h_minor DRV_NAME_C2H) (\<lambda>d.
          mthen (modify (\<lambda>w. w\<lparr>xpcie_class_c2h := d\<rparr>)) (ret 0))))))))))))"

definition pci_register_driver :: "kapi \<Rightarrow> (world, int) prog" where
  "pci_register_driver K = mbind (get_state (k_pci_register_driver K)) (\<lambda>rc.
     mthen (emit (Reg (E_register_driver rc))) (ret rc))"

text \<open>What \<open>xpcie_init\<close> does after the driver has been registered.\<close>

definition register_devices :: "kapi \<Rightarrow> (world, int) prog" where
  "register_devices K =
     mbind (register_chrdev K DRV_NAME_USER Ref_user_fops) (\<lambda>rc.
     if rc < 0 then ret (- 1)
     else
       mthen (modify (\<lambda>w. w\<lparr>major_user := rc\<rparr>))
       (mbind (register_chrdev K DRV_NAME_H2C Ref_h2c_fops) (\<lambda>rc.
        if rc < 0 then ret (- 1)
        else
          mthen (modify (\<lambda>w. w\<lparr>major_h2c := rc\<rparr>))
          (mbind (register_chrdev K DRV_NAME_C2H Ref_c2h_fops) (\<lambda>rc.
           if rc < 0 then ret (- 1)
           else
             mthen (modify (\<lambda>w. w\<lparr>major_c2h := rc\<rparr>))
             (create_devices K))))))"

definition xpcie_init :: "kapi \<Rightarrow> (world, int) prog" where
  "xpcie_init K = mbind (pci_register_driver K) (\<lambda>rc.
     if rc \<noteq> 0 then ret (- 1) else register_devices K)"

definition xpcie_exit :: "(world, unit) prog" where
  "xpcie_exit =
     mbind (get_state major_user) (\<lambda>mu. mbind (get_state major_h2c) (\<lambda>mh.
     mbind (get_state major_c2h) (\<lambda>mc. mbind (get_state xpcie_class) (\<lambda>cl.
     mthen (emit (Reg (E_device_destroy mu user_minor)))
     (mthen (emit (Reg (E_device_destroy mh h2c_minor)))
     (mthen (emit (Reg (E_device_destroy mc c2h_minor)))
     (mthen (emit (Reg (E_class_destroy cl)))
     (mthen (emit (Reg (E_unregister_chrdev mu DRV_NAME_USER)))
     (mthen (emit (Reg (E_unregister_chrdev mh DRV_NAME_H2C)))
     (mthen (emit (Reg (E_unregister_chrdev mc DRV_NAME_C2H)))
     (emit (Reg E_unregister_driver))))))))))))"

section \<open>What is registered\<close>

text \<open>The registrations a trace makes and those it undoes.\<close>

datatype registration = R_driver | R_chrdev int string | R_class u64 | R_device int int

fun acquired :: "event list \<Rightarrow> registration list" where
  "acquired [] = []"
| "acquired (Reg (E_register_driver rc) # es) = (if rc = 0 then R_driver # acquired es else acquired es)"
| "acquired (Reg (E_register_chrdev n f rc) # es) = (if 0 \<le> rc then R_chrdev rc n # acquired es else acquired es)"
| "acquired (Reg (E_class_create p) # es) = R_class p # acquired es"
| "acquired (Reg (E_device_create mj mi n p) # es) = R_device mj mi # acquired es"
| "acquired (e # es) = acquired es"

fun released :: "event list \<Rightarrow> registration list" where
  "released [] = []"
| "released (Reg E_unregister_driver # es) = R_driver # released es"
| "released (Reg (E_unregister_chrdev mj n) # es) = R_chrdev mj n # released es"
| "released (Reg (E_class_destroy p) # es) = R_class p # released es"
| "released (Reg (E_device_destroy mj mi) # es) = R_device mj mi # released es"
| "released (e # es) = released es"

text \<open>The registrations that the driver's global variables name.\<close>

definition registered :: "world \<Rightarrow> registration list" where
  "registered w =
     [R_driver, R_chrdev (major_user w) DRV_NAME_USER, R_chrdev (major_h2c w) DRV_NAME_H2C,
      R_chrdev (major_c2h w) DRV_NAME_C2H, R_class (xpcie_class w),
      R_device (major_user w) user_minor, R_device (major_h2c w) h2c_minor, R_device (major_c2h w) c2h_minor]"

text \<open>Initialisation and exit touch neither the heap nor the device.\<close>

definition same_hw :: "world \<Rightarrow> world \<Rightarrow> bool" where
  "same_hw w w' \<longleftrightarrow> sgms w' = sgms w \<and> page_arrs w' = page_arrs w \<and> sgl_arrs w' = sgl_arrs w
     \<and> desc_arrs w' = desc_arrs w \<and> data_bufs w' = data_bufs w \<and> bar w' = bar w \<and> xpcie_dev w' = xpcie_dev w
     \<and> engine_regs_h2c w' = engine_regs_h2c w \<and> engine_sgdma_regs w' = engine_sgdma_regs w"

definition init_outcome :: "kapi \<Rightarrow> world \<Rightarrow> int \<Rightarrow> world \<Rightarrow> bool" where
  "init_outcome K w rc w' \<longleftrightarrow> same_hw w w' \<and> (\<exists>es. trace w' = trace w @ es \<and> (\<forall>e \<in> set es. \<exists>r. e = Reg r)
     \<and> released es = [] \<and> rc \<in> {0, - 1} \<and> (rc = 0 \<longrightarrow> acquired es = registered w'))"

lemma runs_device_create [simp]: "runs (device_create K mj mi n) w Q =
    (let p = k_device_create K w mj mi n in Q p (logged w [Reg (E_device_create mj mi n p)]))"
  by (simp add: device_create_def Let_def)

lemma runs_register_chrdev [simp]: "runs (register_chrdev K n f) w Q =
    (let rc = k_register_chrdev K w n in Q rc (logged w [Reg (E_register_chrdev n f rc)]))"
  by (simp add: register_chrdev_def Let_def)

lemma runs_pci_register_driver [simp]: "runs (pci_register_driver K) w Q =
    (let rc = k_pci_register_driver K w in Q rc (logged w [Reg (E_register_driver rc)]))"
  by (simp add: pci_register_driver_def Let_def)

lemma register_devices_runs: "runs (register_devices K) w (\<lambda>rc w'. same_hw w w' \<and> (\<exists>es. trace w' = trace w @ es
    \<and> (\<forall>e \<in> set es. \<exists>r. e = Reg r) \<and> released es = [] \<and> rc \<in> {0, - 1}
    \<and> (rc = 0 \<longrightarrow> R_driver # acquired es = registered w')))"
  unfolding register_devices_def create_devices_def
  by (simp add: same_hw_def Let_def registered_def logged_def)

lemma xpcie_init_runs: "runs (xpcie_init K) w (init_outcome K w)"
proof (cases "k_pci_register_driver K w = 0")
  case True
  have "runs (register_devices K) (logged w [Reg (E_register_driver 0)]) (init_outcome K w)"
  proof (rule runs_weaken [OF register_devices_runs], elim conjE exE)
    fix rc :: int and w' es
    assume "same_hw (logged w [Reg (E_register_driver 0)]) w'" "trace w' = trace (logged w [Reg (E_register_driver 0)]) @ es"
      "\<forall>e \<in> set es. \<exists>r. e = Reg r" "released es = []" "rc \<in> {0, - 1}" "rc = 0 \<longrightarrow> R_driver # acquired es = registered w'"
    then show "init_outcome K w rc w'"
      by (auto simp: init_outcome_def same_hw_def intro!: exI [of _ "Reg (E_register_driver 0) # es"])
  qed
  with True show ?thesis by (simp add: xpcie_init_def Let_def)
qed (auto simp: xpcie_init_def Let_def init_outcome_def same_hw_def)

lemma xpcie_exit_runs: "runs xpcie_exit w (\<lambda>_ w'. same_hw w w' \<and> (\<exists>es. trace w' = trace w @ es
    \<and> (\<forall>e \<in> set es. \<exists>r. e = Reg r) \<and> acquired es = [] \<and> mset (released es) = mset (registered w)))"
  by (simp add: xpcie_exit_def same_hw_def registered_def)

section \<open>Pages pinned and released\<close>

fun pins :: "event list \<Rightarrow> u64 list" where
  "pins [] = []"
| "pins (Mem (E_get_user_pages a n wr pgs) # es) = pgs @ pins es"
| "pins (e # es) = pins es"

fun unpins :: "event list \<Rightarrow> u64 list" where
  "unpins [] = []"
| "unpins (Mem (E_put_page pg) # es) = pg # unpins es"
| "unpins (e # es) = unpins es"

lemma pins_append [simp]: "pins (xs @ ys) = pins xs @ pins ys"
  by (induction xs rule: pins.induct) auto

lemma unpins_append [simp]: "unpins (xs @ ys) = unpins xs @ unpins ys"
  by (induction xs rule: unpins.induct) auto

lemma acquired_append [simp]: "acquired (xs @ ys) = acquired xs @ acquired ys"
  by (induction xs rule: acquired.induct) auto

lemma released_append [simp]: "released (xs @ ys) = released xs @ released ys"
  by (induction xs rule: released.induct) auto

text \<open>Events of one kind do not show in the accounts of another.\<close>

lemma no_pci: "\<forall>e \<in> set es. \<forall>x. e \<noteq> Pci x \<Longrightarrow> iomaps es = [] \<and> iounmaps es = []"
  by (induction es rule: iomaps.induct) auto

lemma no_reg: "\<forall>e \<in> set es. \<forall>x. e \<noteq> Reg x \<Longrightarrow> acquired es = [] \<and> released es = []"
proof (induction es)
  case (Cons e es)
  then show ?case by (cases e) auto
qed simp

lemma no_mem: "\<forall>e \<in> set es. \<forall>x. e \<noteq> Mem x \<Longrightarrow> pins es = [] \<and> unpins es = []"
proof (induction es)
  case (Cons e es)
  then show ?case by (cases e) auto
qed simp

lemma heap_event_mem: "heap_event e \<Longrightarrow> \<exists>x. e = Mem x"
  by (cases e rule: heap_event.cases) auto

lemma heap_pins: "list_all heap_event es \<Longrightarrow> pins es = [] \<and> unpins es = []"
proof (induction es)
  case (Cons e es)
  then show ?case by (cases e rule: heap_event.cases) auto
qed simp

lemma map_pins [simp]:
  "pins (map (\<lambda>pg. Mem (E_flush_dcache_page pg)) pgs) = []" "unpins (map (\<lambda>pg. Mem (E_flush_dcache_page pg)) pgs) = []"
  "pins (map (\<lambda>pg. Mem (E_put_page pg)) pgs) = []" "unpins (map (\<lambda>pg. Mem (E_put_page pg)) pgs) = pgs"
  by (induction pgs) auto

lemma transfer_events_io: "e \<in> set (transfer_events K h s bus adj v0 v1 v2 v3) \<Longrightarrow> \<exists>x. e = Io x"
  by (auto simp: transfer_events_def engine_events_def)

lemma write_events_kinds:
  assumes "list_all heap_event hs" and "e \<in> set (write_events K w buf hs m s pgs n virt bus j vs)"
  shows "(\<exists>x. e = Mem x) \<or> (\<exists>x. e = Dma x) \<or> (\<exists>x. e = Io x)"
  using assms heap_event_mem transfer_events_io
  by (auto simp: write_events_def map_events_def pin_events_def release_events_def put_events_def list_all_iff)

lemma write_events_accounts:
  assumes "list_all heap_event hs"
  shows "iomaps (write_events K w buf hs m s pgs n virt bus j vs) = []"
    "iounmaps (write_events K w buf hs m s pgs n virt bus j vs) = []"
    "acquired (write_events K w buf hs m s pgs n virt bus j vs) = []"
    "released (write_events K w buf hs m s pgs n virt bus j vs) = []"
    "pins (write_events K w buf hs m s pgs n virt bus j vs) = pgs"
    "unpins (write_events K w buf hs m s pgs n virt bus j vs) = pgs"
proof -
  show "iomaps (write_events K w buf hs m s pgs n virt bus j vs) = []"
    "iounmaps (write_events K w buf hs m s pgs n virt bus j vs) = []"
    using write_events_kinds [OF assms] by (blast intro: no_pci [THEN conjunct1] no_pci [THEN conjunct2])+
  show "acquired (write_events K w buf hs m s pgs n virt bus j vs) = []"
    "released (write_events K w buf hs m s pgs n virt bus j vs) = []"
    using write_events_kinds [OF assms] by (blast intro: no_reg [THEN conjunct1] no_reg [THEN conjunct2])+
  have t: "pins (transfer_events K h s bus adj v0 v1 v2 v3) = []" "unpins (transfer_events K h s bus adj v0 v1 v2 v3) = []"
    for h s bus adj v0 v1 v2 v3
    by (simp_all add: transfer_events_def engine_events_def)
  show "pins (write_events K w buf hs m s pgs n virt bus j vs) = pgs"
    "unpins (write_events K w buf hs m s pgs n virt bus j vs) = pgs"
    using heap_pins [OF assms]
    by (simp_all add: write_events_def map_events_def pin_events_def release_events_def put_events_def t)
qed

section \<open>The life of the driver\<close>

text \<open>
  The device files exist as soon as the module is loaded, whether a device is bound or not, so
  writes and mappings can happen in both states.
\<close>

datatype life = Unloaded | Loaded | Bound u64

text \<open>What the callers of the driver make sure of: the sizes of a user buffer.\<close>

definition user_buffer :: "u64 \<Rightarrow> u64 \<Rightarrow> bool" where
  "user_buffer buf cnt \<longleftrightarrow> cnt \<noteq> 0 \<and> unat buf + unat cnt \<le> 2 ^ 64 \<and> unat cnt < 2 ^ 42"

inductive life_step :: "kapi \<Rightarrow> life \<times> world \<Rightarrow> life \<times> world \<Rightarrow> bool" for K where
  load: "xpcie_init K w = Inr (0, w') \<Longrightarrow> life_step K (Unloaded, w) (Loaded, w')"
| load_fails: "xpcie_init K w = Inr (rc, w') \<Longrightarrow> rc \<noteq> 0 \<Longrightarrow> life_step K (Unloaded, w) (Unloaded, w')"
| unload: "xpcie_exit w = Inr ((), w') \<Longrightarrow> life_step K (Loaded, w) (Unloaded, w')"
| bind: "pdev \<noteq> 0 \<Longrightarrow> xpcie_probe K pdev w = Inr (0, w') \<Longrightarrow> life_step K (Loaded, w) (Bound pdev, w')"
| bind_fails: "pdev \<noteq> 0 \<Longrightarrow> xpcie_probe K pdev w = Inr (rc, w') \<Longrightarrow> rc \<noteq> 0 \<Longrightarrow>
    life_step K (Loaded, w) (Loaded, w')"
| unbind: "xpcie_remove pdev w = Inr ((), w') \<Longrightarrow> life_step K (Bound pdev, w) (Loaded, w')"
| write_h2c: "l \<noteq> Unloaded \<Longrightarrow> user_buffer buf cnt \<Longrightarrow> xpcie_h2c_write K buf cnt ppos w = Inr (rc, w') \<Longrightarrow>
    life_step K (l, w) (l, w')"
| mmap_user: "l \<noteq> Unloaded \<Longrightarrow> xpcie_user_mmap K vma w = Inr (r, w') \<Longrightarrow> life_step K (l, w) (l, w')"
| mmap_h2c: "l \<noteq> Unloaded \<Longrightarrow> xpcie_h2c_mmap K vma w = Inr (r, w') \<Longrightarrow> life_step K (l, w) (l, w')"

inductive_cases unloaded_stepE: "life_step K (Unloaded, w) (l', w')"

inductive life_reachable :: "kapi \<Rightarrow> world \<Rightarrow> life \<times> world \<Rightarrow> bool" for K w0 where
  start: "life_reachable K w0 (Unloaded, w0)"
| step: "life_reachable K w0 s \<Longrightarrow> life_step K s s' \<Longrightarrow> life_reachable K w0 s'"

text \<open>A world in which the driver has not done anything yet.\<close>

definition boot_world :: "world \<Rightarrow> bool" where
  "boot_world w \<longleftrightarrow> trace w = [] \<and> bar w = [0, 0] \<and> sgms w = Map.empty \<and> page_arrs w = Map.empty
     \<and> sgl_arrs w = Map.empty \<and> desc_arrs w = Map.empty"

definition kernel_ok :: "kapi \<Rightarrow> nat \<Rightarrow> bool" where
  "kernel_ok K M \<longleftrightarrow> kcalloc_ok K \<and> sg_api_ok K \<and> gup_ok K \<and> map_sg_ok K M \<and> byte_order_ok K
     \<and> coherent_ok K \<and> 258047 + M < 2 ^ 32"

definition life_inv :: "life \<times> world \<Rightarrow> bool" where
  "life_inv = (\<lambda>(l, w). bars_balanced w \<and> ((\<forall>d. l \<noteq> Bound d) \<longrightarrow> bar w = [0, 0])
     \<and> sgms w = Map.empty \<and> page_arrs w = Map.empty \<and> sgl_arrs w = Map.empty \<and> desc_arrs w 0 = None
     \<and> mset (pins (trace w)) = mset (unpins (trace w))
     \<and> mset (released (trace w)) + (if l = Unloaded then {#} else mset (registered w)) \<subseteq># mset (acquired (trace w)))"

lemma registered_same: 
  "registered (logged w es) = registered w" "registered (w\<lparr>bar := bs\<rparr>) = registered w"
  "registered (w\<lparr>xpcie_dev := d\<rparr>) = registered w" "registered (put_descs w p ds) = registered w"
  "registered (located w) = registered w" "registered (mapped_bar K dev i w) = registered w"
  by (simp_all add: registered_def logged_def put_descs_def located_def mapped_bar_def Let_def)

section \<open>Every step keeps the invariant\<close>

text \<open>
  The steps that only deal with the PCI device leave the heap and the registrations alone and
  append PCI events to the trace.
\<close>

definition pci_only :: "world \<Rightarrow> world \<Rightarrow> bool" where
  "pci_only w w' \<longleftrightarrow> sgms w' = sgms w \<and> page_arrs w' = page_arrs w \<and> sgl_arrs w' = sgl_arrs w
     \<and> desc_arrs w' = desc_arrs w \<and> registered w' = registered w
     \<and> (\<exists>es. trace w' = trace w @ es \<and> (\<forall>e \<in> set es. \<exists>x. e = Pci x))"

lemma pci_only_trans [trans]: "pci_only w w1 \<Longrightarrow> pci_only w1 w2 \<Longrightarrow> pci_only w w2"
  unfolding pci_only_def by (elim conjE exE) (auto simp: ball_Un)

lemma pci_only_basic [simp]:
  "(\<forall>e \<in> set es. \<exists>x. e = Pci x) \<Longrightarrow> pci_only w (logged w es)"
  "pci_only w (w\<lparr>xpcie_dev := d\<rparr>)" "pci_only w (located w)" "pci_only w (mapped_bar K d i w)"
  "pci_only w (w\<lparr>bar := bs\<rparr>)"
  by (auto simp: pci_only_def registered_same) (auto simp: located_def mapped_bar_def Let_def)

lemma pci_only_inv:
  assumes "pci_only w w'" and "life_inv (l, w)" and "l \<noteq> Unloaded" and "l' \<noteq> Unloaded"
    and "bars_balanced w'" and "(\<forall>d. l' \<noteq> Bound d) \<longrightarrow> bar w' = [0, 0]"
  shows "life_inv (l', w')"
proof -
  obtain es where es: "trace w' = trace w @ es" "\<forall>e \<in> set es. \<exists>x. e = Pci x"
    using assms(1) by (auto simp: pci_only_def)
  then have "acquired es = [] \<and> released es = []" "pins es = [] \<and> unpins es = []"
    by (intro no_reg no_mem; fastforce)+
  then show ?thesis
    using assms es by (simp add: pci_only_def life_inv_def)
qed

lemma probe_pci_only:
  assumes "probe_outcome K dev w rc w'"
  shows "pci_only w w'"
proof -
  have me: "pci_only v (logged v es)" if "mask_events dev mrc es" for mrc es v
    using that by (auto simp: mask_events_def)
  have l: "pci_only w (logged (w\<lparr>xpcie_dev := dev\<rparr>) es)" if "\<forall>e \<in> set es. \<exists>x. e = Pci x" for es
    by (rule pci_only_trans [OF pci_only_basic(2) pci_only_basic(1) [OF that]])
  show ?thesis
    using assms unfolding probe_outcome_def Let_def
    by (elim disjE conjE exE) (auto intro!: l pci_only_trans [OF _ me] pci_only_trans [OF _ pci_only_basic(3)]
        pci_only_trans [OF _ pci_only_basic(4)])
qed

lemma remove_pci_only: "length (bar w) = 2 \<Longrightarrow> runs (xpcie_remove d) w (\<lambda>_ w'. pci_only w w')"
  by (simp add: xpcie_remove_runs)
    (rule pci_only_trans [OF pci_only_basic(5) pci_only_basic(1)], auto simp: unmap_events_def)

lemma mmap_bar_trace: "runs (mmap_bar K b vma) w (\<lambda>_ w'. \<exists>es. w' = logged w es
    \<and> (\<forall>e \<in> set es. \<exists>a p n r. e = Pci (E_remap_pfn a p n r)))"
  by (auto simp: mmap_bar_def io_remap_pfn_range_def Let_def intro: exI [where x = "[]"])

lemma mmap_inv:
  assumes "mmap_bar K b vma w = Inr (r, w')" and "life_inv (l, w)" and "l \<noteq> Unloaded"
  shows "life_inv (l, w')"
proof -
  obtain es where es: "w' = logged w es" "\<forall>e \<in> set es. \<exists>a p n r. e = Pci (E_remap_pfn a p n r)"
    using runsD [OF mmap_bar_trace assms(1)] by blast
  then have "iomaps es = [] \<and> iounmaps es = []"
  proof (induction es arbitrary: w')
    case (Cons e es)
    then show ?case by auto
  qed simp
  then have "bars_balanced w'" using assms(2) es(1) by (simp add: life_inv_def bars_balanced_def)
  then show ?thesis
    unfolding es(1)
    by (intro pci_only_inv [OF pci_only_basic(1) assms(2)]) (use es assms(2,3) in \<open>auto simp: life_inv_def\<close>)
qed

lemma write_inv:
  assumes K: "kernel_ok K M" and buf: "user_buffer buf cnt"
    and run: "xpcie_h2c_write K buf cnt ppos w = Inr (rc, w')" and inv: "life_inv (l, w)"
  shows "life_inv (l, w')"
proof -
  have "h2c_done K M w buf cnt ppos rc w'"
    using h2c_write_result [of K M cnt buf w ppos] K buf inv run
    by (simp add: kernel_ok_def user_buffer_def life_inv_def h2c_result_def)
  then obtain hs m s pgs n virt bus j ds vs where h: "list_all heap_event hs" "virt \<noteq> 0"
    and w': "w' = put_descs (logged w (write_events K w buf hs m s pgs n virt bus j vs)) virt ds"
    unfolding h2c_done_def by blast
  have d0: "desc_arrs (put_descs v virt ds) 0 = desc_arrs v 0" "iomaps (trace (put_descs v virt ds)) = iomaps (trace v)" for v
    using h(2) by (simp_all add: put_descs_def)
  show ?thesis
    using inv h(2) unfolding w'
    by (cases "l = Unloaded")
      (simp_all add: life_inv_def d0 bars_balanced_def write_events_accounts [OF h(1)] registered_same)
qed

lemma same_hw_bars: "same_hw w w' \<Longrightarrow> trace w' = trace w @ es \<Longrightarrow> \<forall>e \<in> set es. \<exists>r. e = Reg r \<Longrightarrow>
    bars_balanced w \<Longrightarrow> bars_balanced w' \<and> pins es = [] \<and> unpins es = []"
  using no_pci [of es] no_mem [of es] by (fastforce simp: same_hw_def bars_balanced_def)

lemma init_inv:
  assumes "xpcie_init K w = Inr (rc, w')" and inv: "life_inv (Unloaded, w)"
  shows "life_inv (if rc = 0 then Loaded else Unloaded, w')"
proof -
  obtain es where o: "same_hw w w'" "trace w' = trace w @ es" "\<forall>e \<in> set es. \<exists>r. e = Reg r" "released es = []"
     "rc = 0 \<longrightarrow> acquired es = registered w'"
    using runsD [OF xpcie_init_runs assms(1)] by (auto simp: init_outcome_def)
  then show ?thesis
    using inv same_hw_bars [OF o(1-3)] by (auto simp: life_inv_def same_hw_def intro: subset_mset.order_trans)
qed

lemma exit_inv:
  assumes "xpcie_exit w = Inr ((), w')" and inv: "life_inv (Loaded, w)"
  shows "life_inv (Unloaded, w')"
proof -
  obtain es where o: "same_hw w w'" "trace w' = trace w @ es" "\<forall>e \<in> set es. \<exists>r. e = Reg r" "acquired es = []"
     "mset (released es) = mset (registered w)"
    using runsD [OF xpcie_exit_runs assms(1)] by auto
  then show ?thesis
    using inv same_hw_bars [OF o(1-3)] by (auto simp: life_inv_def same_hw_def)
qed

lemma probe_inv:
  assumes "xpcie_probe K pdev w = Inr (rc, w')" and "pdev \<noteq> 0" and inv: "life_inv (Loaded, w)"
  shows "life_inv (if rc = 0 then Bound pdev else Loaded, w')"
proof -
  have b: "bars_balanced w" "bar w = [0, 0]" using inv by (auto simp: life_inv_def)
  have "pci_only w w'"
    using runsD [OF xpcie_probe_runs assms(1)] b assms(2) by (auto intro: probe_pci_only)
  then show ?thesis
    using runsD [OF probe_balanced [OF b assms(2)] assms(1)] by (intro pci_only_inv [OF _ inv]) auto
qed

lemma remove_inv:
  assumes "xpcie_remove pdev w = Inr ((), w')" and inv: "life_inv (Bound pdev, w)"
  shows "life_inv (Loaded, w')"
proof -
  have b: "bars_balanced w" using inv by (auto simp: life_inv_def)
  have "pci_only w w'" using runsD [OF remove_pci_only assms(1)] b by (auto simp: bars_balanced_def)
  then show ?thesis
    using runsD [OF remove_balanced [OF b] assms(1)] by (intro pci_only_inv [OF _ inv]) auto
qed

lemma life_step_inv:
  assumes K: "kernel_ok K M" and step: "life_step K (l, w) (l', w')" and inv: "life_inv (l, w)"
  shows "life_inv (l', w')"
  using step
proof (cases rule: life_step.cases)
  case load
  then show ?thesis using init_inv [of K w 0 w'] inv by simp
next
  case (load_fails rc)
  then show ?thesis using init_inv [of K w rc w'] inv by simp
next
  case unload
  then show ?thesis using exit_inv inv by simp
next
  case (bind pdev)
  then show ?thesis using probe_inv [of K pdev w 0 w'] inv by simp
next
  case (bind_fails pdev rc)
  then show ?thesis using probe_inv [of K pdev w rc w'] inv by simp
next
  case unbind
  then show ?thesis using remove_inv inv by simp
next
  case write_h2c
  then show ?thesis using write_inv [OF K] inv by simp
next
  case mmap_user
  then show ?thesis using mmap_inv inv by (simp add: xpcie_user_mmap_def)
next
  case mmap_h2c
  then show ?thesis using mmap_inv inv by (simp add: xpcie_h2c_mmap_def)
qed

lemma boot_inv: "boot_world w \<Longrightarrow> life_inv (Unloaded, w)"
  by (simp add: boot_world_def life_inv_def bars_balanced_def)

lemma life_reachable_inv:
  assumes "kernel_ok K M" and "boot_world w0" and "life_reachable K w0 s"
  shows "life_inv s"
  using assms(3)
proof (induction rule: life_reachable.induct)
  case start
  then show ?case using assms(2) by (rule boot_inv)
next
  case (step s s')
  then show ?case using life_step_inv [OF assms(1)] by (cases s; cases s') simp
qed

text \<open>A step of the module that is not loaded is an attempt to load it: it touches no device.\<close>

lemma unloaded_step:
  assumes "life_step K (Unloaded, w) (l', w')"
  shows "same_hw w w' \<and> l' \<in> {Unloaded, Loaded}"
  using assms by (elim unloaded_stepE) (auto dest: runsD [OF xpcie_init_runs] simp: init_outcome_def)

text \<open>
  After \<open>xpcie_remove\<close> the register addresses are still in the driver's variables, and a write
  uses them.
\<close>

lemma write_uses_registers:
  assumes "h2c_done K M w buf cnt ppos rc w'"
  shows "\<exists>es. trace w' = trace w @ es \<and> Io (E_iowrite32 engine_start_control (engine_regs_h2c w + 4)) \<in> set es"
  using assms unfolding h2c_done_def
  by (elim conjE exE) (simp add: write_events_def transfer_events_def engine_events_def engine_start_control_value)

lemma remove_keeps_registers:
  assumes "length (bar w) = 2"
  shows "runs (xpcie_remove pdev) w (\<lambda>_ w'. engine_regs_h2c w' = engine_regs_h2c w \<and> bar w' = [0, 0])"
  using assms by (simp add: xpcie_remove_runs)

section \<open>What a write that returns has done\<close>

lemma pages_small:
  assumes "user_buffer buf cnt" and "n \<le> (unat buf mod 4096 + unat cnt - 1) div 4096 + 1"
  shows "n < 2 ^ 59"
proof -
  have "n < unat cnt div 4096 + 3"
    using pages_bound [of "unat buf mod 4096" "unat cnt"] assms(2) by simp
  moreover have "unat cnt div 4096 \<le> 2 ^ 42"
    using assms(1) div_le_dividend [of "unat cnt" 4096] unfolding user_buffer_def by linarith
  ultimately show ?thesis by simp
qed

text \<open>
  The engine is started when its registers name a list of \<open>n\<close> descriptors by its bus address and by
  the number of further descriptors it may fetch at once, and it is stopped after that.
\<close>

definition programmed :: "kapi \<Rightarrow> world \<Rightarrow> u64 \<Rightarrow> nat \<Rightarrow> event list \<Rightarrow> bool" where
  "programmed K w bus n es \<longleftrightarrow>
     (\<exists>pre post. es = pre @ Io (E_iowrite32 engine_start_control (engine_regs_h2c w + 0x04)) # post
        \<and> Io (E_iowrite32 0 (engine_regs_h2c w + 0x04)) \<in> set post
        \<and> (\<forall>m. after pre m (engine_sgdma_regs w + 0x80) = cpu_to_le32 K (ucast (PCI_DMA_L bus))
          \<and> after pre m (engine_sgdma_regs w + 0x84) = cpu_to_le32 K (ucast (PCI_DMA_H bus))
          \<and> after pre m (engine_sgdma_regs w + 0x88) = cpu_to_le32 K (of_nat (min 15 (n - 1)))))"

lemma write_programs:
  "programmed K w bus (Suc j) (write_events K w buf hs m s pgs n virt bus j vs)"
proof -
  let ?pre = "hs @ map_events (xpcie_dev w) buf (sgl s) pgs n
     @ Dma (E_alloc_coherent (xpcie_dev w) (word_of_int (int n) * sizeof_xdma_desc) virt bus)
     # program_events K (engine_regs_h2c w) (engine_sgdma_regs w) bus (int (Suc j)) (vs ! 0)"
  have "first_extra_adj (int (Suc j)) = int (min 15 j)"
    by (simp add: first_extra_adj_def MAX_EXTRA_ADJ_def Let_def min_def)
  then have adj: "word_of_int (first_extra_adj (int (Suc j))) = (of_nat (min 15 j) :: u32)" by simp
  let ?post = "tl (engine_events (engine_regs_h2c w) 2000 (vs ! 1) (vs ! 2) (vs ! 3)) @ release_events (xpcie_dev w) m s pgs"
  have "write_events K w buf hs m s pgs n virt bus j vs
      = ?pre @ Io (E_iowrite32 engine_start_control (engine_regs_h2c w + 0x04)) # ?post"
    by (simp add: write_events_def transfer_events_split engine_events_def engine_start_control_value)
  moreover have "Io (E_iowrite32 0 (engine_regs_h2c w + 0x04)) \<in> set ?post"
    by (simp add: engine_events_def)
  moreover have "after ?pre m (engine_sgdma_regs w + 0x80) = cpu_to_le32 K (ucast (PCI_DMA_L bus))
      \<and> after ?pre m (engine_sgdma_regs w + 0x84) = cpu_to_le32 K (ucast (PCI_DMA_H bus))
      \<and> after ?pre m (engine_sgdma_regs w + 0x88) = cpu_to_le32 K (of_nat (min 15 j))" for m
    by (simp add: program_events_def transfer_events_def adj del: of_nat_Suc)
  ultimately show ?thesis
    unfolding programmed_def diff_Suc_1 by blast
qed

lemma map_zip_fst: "map (map_prod f id) (zip xs ys) = zip (map f xs) ys"
  by (induction xs ys rule: list_induct2') auto

text \<open>
  In the events \<open>es\<close> of a write the pages of the buffer are pinned, and the scatter list \<open>xs\<close>,
  which describes its bytes in order, is mapped for the device when the world is \<open>wm\<close>.
\<close>

definition mapped_in ::
  "world \<Rightarrow> event list \<Rightarrow> u64 \<Rightarrow> u64 \<Rightarrow> world \<Rightarrow> scatterlist list \<Rightarrow> bool" where
  "mapped_in w es buf cnt wm xs \<longleftrightarrow>
     sgl_slots xs = buffer_slots (pins es) (unat buf mod 4096) (unat cnt)
     \<and> (\<exists>pre lp k n post. es = pre @ Dma (E_map_sg (xpcie_dev w) lp k DMA_TO_DEVICE n) # post
         \<and> trace wm = trace w @ pre)"

text \<open>
  Following the list yields the copies of the bytes of the buffer, in order, to consecutive
  addresses of the card.
\<close>

lemma h2c_done_transfer:
  assumes d: "h2c_done K M w buf cnt ppos rc w'" and buf: "user_buffer buf cnt"
  shows "\<exists>es virt bus ds lst wm xs. trace w' = trace w @ es \<and> desc_arrs w' virt = Some ds
    \<and> programmed K w bus (length lst) es \<and> mapped_in w es buf cnt wm xs
    \<and> follow K (length ds) (desc_mem bus ds) bus = Some lst
    \<and> map (map_prod (k_dma_target K wm (xpcie_dev w) xs DMA_TO_DEVICE) id) (plan K lst)
        = zip (buffer_slots (pins es) (unat buf mod 4096) (unat cnt)) (span ppos (unat cnt))
    \<and> pinned K buf False ((unat buf mod 4096 + unat cnt - 1) div 4096 + 1) (pins es)"
proof -
  let ?slots = "\<lambda>pgs. buffer_slots pgs (unat buf mod 4096) (unat cnt)"
  from d obtain hs m s pgs n virt bus j ds addrs vs where
    h: "list_all heap_event hs" "pinned K buf False ((unat buf mod 4096 + unat cnt - 1) div 4096 + 1) pgs"
    and r: "reaches K (trace w @ hs @ pin_events buf pgs) (xpcie_dev w) addrs (?slots pgs)"
      "ready K bus j 1 True ppos addrs (258047 + M) ds"
    and n: "length ds = n" "n \<le> length pgs"
    and w': "w' = put_descs (logged w (write_events K w buf hs m s pgs n virt bus j vs)) virt ds"
    unfolding h2c_done_def by blast
  let ?es = "write_events K w buf hs m s pgs n virt bus j vs"
  note acc = write_events_accounts [OF h(1)]
  from r(1) obtain wm xs where wm: "trace wm = trace w @ hs @ pin_events buf pgs" "sgl_slots xs = ?slots pgs"
    and t: "map (k_dma_target K wm (xpcie_dev w) xs DMA_TO_DEVICE) addrs = ?slots pgs"
    unfolding reaches_def by blast
  have la: "length addrs = unat cnt"
    using arg_cong [OF t, of length] by (simp add: buffer_slots_def)
  have "length ds < 2 ^ 59" using pages_small [OF buf, of n] n h(2) by (simp add: pinned_def)
  moreover have "j < length ds" using r(2) by (simp add: ready_def)
  ultimately have f: "follow K (length ds) (desc_mem bus ds) bus = Some (take (Suc j) ds)"
    by (intro ready_follow [OF r(2)])
  have p: "plan K (take (Suc j) ds) = zip addrs (span ppos (unat cnt))"
    using r(2) la by (simp add: ready_def directed_def)
  have prg: "programmed K w bus (length (take (Suc j) ds)) ?es"
    using write_programs \<open>j < length ds\<close> by (simp add: min_absorb2)
  have mi: "mapped_in w ?es buf cnt wm xs"
    unfolding mapped_in_def acc(5) using wm
    by (intro conjI exI [of _ "hs @ pin_events buf pgs"]) (auto simp: write_events_def map_events_def)
  have "map (map_prod (k_dma_target K wm (xpcie_dev w) xs DMA_TO_DEVICE) id) (plan K (take (Suc j) ds))
      = zip (?slots pgs) (span ppos (unat cnt))"
    by (simp add: p map_zip_fst t)
  then show ?thesis
    using f prg mi acc(5) h(2)
    by (intro exI [of _ ?es] exI [of _ virt] exI [of _ bus] exI [of _ ds] exI [of _ "take (Suc j) ds"]
        exI [of _ wm] exI [of _ xs]) (simp add: w')
qed

text \<open>What is left behind: the heap as it was, the pages released, one array of descriptors more.\<close>

lemma h2c_done_frame:
  assumes d: "h2c_done K M w buf cnt ppos rc w'"
  shows "\<exists>es virt ds. w' = put_descs (logged w es) virt ds \<and> virt \<noteq> 0 \<and> ds \<noteq> [] \<and> pins es = unpins es
    \<and> (\<forall>dev sz v b. Dma (E_free_coherent dev sz v b) \<notin> set es)"
proof -
  from d obtain hs m s pgs n virt bus j ds addrs vs where h: "list_all heap_event hs" "virt \<noteq> 0"
    and r: "ready K bus j 1 True ppos addrs (258047 + M) ds"
    and w': "w' = put_descs (logged w (write_events K w buf hs m s pgs n virt bus j vs)) virt ds"
    unfolding h2c_done_def by blast
  have "\<forall>dev sz v b. Dma (E_free_coherent dev sz v b) \<notin> set (write_events K w buf hs m s pgs n virt bus j vs)"
    using h(1) heap_event_mem transfer_events_io
    by (fastforce simp: write_events_def map_events_def pin_events_def release_events_def put_events_def list_all_iff)
  moreover have "ds \<noteq> []" using r by (auto simp: ready_def)
  ultimately show ?thesis
    using h w' write_events_accounts [OF h(1)] by (intro exI conjI) auto
qed

lemma h2c_write_completes:
  assumes K: "kernel_ok K M" and buf: "user_buffer buf cnt" and w: "sgms w 0 = None"
    and mapped: "h2c_map_buffer K buf cnt 1 w = Inr ((m, n), w1)" and n: "0 < n"
    and mem: "fst (k_pci_alloc_consistent K w1 (xpcie_dev w) (word_of_int n * sizeof_xdma_desc)) \<noteq> 0"
  shows "runs (xpcie_h2c_write K buf cnt ppos) w (h2c_done K M w buf cnt ppos)"
proof -
  have "map_phase K M w buf cnt (Inr ((m, n), w1))"
    using h2c_map_buffer_phase [of K M cnt buf w] K buf w mapped by (simp add: kernel_ok_def user_buffer_def)
  then obtain k hs s ps l pgs where b: "mapped_buffer K M w buf cnt m k hs s ps l pgs"
    and e: "n = int k" "w1 = mapped_world w buf m k hs s ps l pgs"
    unfolding map_phase_def by blast
  have "0 < k" using n e(1) by simp
  then show ?thesis
    using h2c_write_mapped [OF _ _ mapped [unfolded e] b, where ppos = ppos] mem K
    unfolding e by (cases "k_pci_alloc_consistent K w1 (xpcie_dev w) (word_of_int n * sizeof_xdma_desc)")
      (auto simp: kernel_ok_def e)
qed

text \<open>A write returns exactly if the buffer can be mapped and there is memory for its descriptors.\<close>

lemma h2c_write_returns_iff:
  assumes K: "kernel_ok K M" and buf: "user_buffer buf cnt" and w: "sgms w 0 = None" "desc_arrs w 0 = None"
  shows "(\<exists>r. xpcie_h2c_write K buf cnt ppos w = Inr r) \<longleftrightarrow>
    (\<exists>m n w1. h2c_map_buffer K buf cnt 1 w = Inr ((m, n), w1) \<and> 0 < n
      \<and> fst (k_pci_alloc_consistent K w1 (xpcie_dev w) (word_of_int n * sizeof_xdma_desc)) \<noteq> 0)"
    (is "?ret \<longleftrightarrow> ?ok")
proof
  assume ?ok
  then show ?ret using h2c_write_completes [OF K buf w(1)] unfolding runs_iff by blast
next
  assume ret: ?ret
  have "map_phase K M w buf cnt (h2c_map_buffer K buf cnt 1 w)"
    using h2c_map_buffer_phase [of K M cnt buf w] K buf w by (simp add: kernel_ok_def user_buffer_def)
  moreover have "h2c_map_buffer K buf cnt 1 w \<noteq> Inl c" for c
    using ret by (auto simp: xpcie_h2c_write_def mbind_def Let_def)
  ultimately obtain m n hs s ps l pgs where b: "mapped_buffer K M w buf cnt m n hs s ps l pgs"
    "h2c_map_buffer K buf cnt 1 w = Inr ((m, int n), mapped_world w buf m n hs s ps l pgs)"
    unfolding map_phase_def by blast
  let ?w1 = "mapped_world w buf m n hs s ps l pgs"
  have "n \<noteq> 0"
  proof
    assume "n = 0"
    with b(2) have "h2c_map_buffer K buf cnt 1 w = Inr ((m, 0), ?w1)" by simp
    from h2c_write_map_fails [OF this] show False using ret by simp
  qed
  then have "0 < int n" by simp
  moreover have "fst (k_pci_alloc_consistent K ?w1 (xpcie_dev w) (word_of_int (int n) * sizeof_xdma_desc)) \<noteq> 0"
  proof
    assume "fst (k_pci_alloc_consistent K ?w1 (xpcie_dev w) (word_of_int (int n) * sizeof_xdma_desc)) = 0"
    then obtain bus where "k_pci_alloc_consistent K ?w1 (xpcie_dev w) (word_of_int (int n) * sizeof_xdma_desc) = (0, bus)"
      by (metis prod.collapse)
    then have "h2c_build K m (int n) ppos 1 0 0 1 ?w1 = Inl Bad_Pointer"
      using \<open>n \<noteq> 0\<close> w(2) by (intro h2c_build_no_memory [where s = s and l = l and bus = bus]) (auto simp: mapped_world_def)
    then show False using ret b(2) by (auto simp: xpcie_h2c_write_def mbind_def Let_def)
  qed
  ultimately show ?ok using b(2) by blast
qed

text \<open>Whether it returns does not depend on what the registers of the device read.\<close>

lemma map_buffer_status: "h2c_map_buffer (K\<lparr>k_ioread32 := f\<rparr>) buf cnt d = h2c_map_buffer K buf cnt d"
proof -
  have k: "kcalloc (K\<lparr>k_ioread32 := f\<rparr>) = kcalloc K" by (simp add: kcalloc_def fun_eq_iff cong: if_cong)
  have i: "sg_init_table (K\<lparr>k_ioread32 := f\<rparr>) = sg_init_table K" by (simp add: sg_init_table_def fun_eq_iff cong: if_cong)
  have g: "get_user_pages_fast (K\<lparr>k_ioread32 := f\<rparr>) = get_user_pages_fast K"
    by (simp add: get_user_pages_fast_def fun_eq_iff cong: if_cong)
  have l: "fill_sgl (K\<lparr>k_ioread32 := f\<rparr>) = fill_sgl K"
    by (simp add: fill_sgl_def fill_middle_def [abs_def] fun_eq_iff cong: if_cong)
  have p: "pci_map_sg (K\<lparr>k_ioread32 := f\<rparr>) = pci_map_sg K" by (simp add: pci_map_sg_def fun_eq_iff cong: if_cong)
  show ?thesis
    by (simp add: h2c_map_buffer_def sg_create_mapper_def sgm_get_user_pages_def h2c_map_list_def
        kcalloc_sgm_def kcalloc_pages_def kcalloc_sgl_def k i g l p cong: if_cong)
qed

lemma kernel_ok_status: "kernel_ok (K\<lparr>k_ioread32 := f\<rparr>) M = kernel_ok K M"
  by (simp add: kernel_ok_def kcalloc_ok_def sg_api_ok_def gup_ok_def map_sg_ok_def byte_order_ok_def coherent_ok_def)

lemma h2c_write_status:
  assumes "kernel_ok K M" and "user_buffer buf cnt" and "sgms w 0 = None" and "desc_arrs w 0 = None"
  shows "(\<exists>r. xpcie_h2c_write (K\<lparr>k_ioread32 := f\<rparr>) buf cnt ppos w = Inr r)
    \<longleftrightarrow> (\<exists>r. xpcie_h2c_write K buf cnt ppos w = Inr r)"
proof -
  have "kernel_ok (K\<lparr>k_ioread32 := f\<rparr>) M" using assms(1) by (simp only: kernel_ok_status)
  from h2c_write_returns_iff [OF this assms(2-4)] h2c_write_returns_iff [OF assms]
  show ?thesis by (simp add: map_buffer_status)
qed

lemma user_buffer_sint:
  assumes "user_buffer buf cnt"
  shows "sint cnt = int (unat cnt)"
proof -
  have "unat cnt < 2 ^ 63" using assms by (simp add: user_buffer_def)
  then have u: "uint cnt < 2 ^ 63"
    by (metis of_nat_less_numeral_power_cancel_iff uint_nat)
  have low: "- (2 ^ 63) \<le> uint cnt"
    by (rule order_trans [OF _ uint_ge_0]) simp
  have "sint cnt = signed_take_bit 63 (uint cnt)"
    by (simp add: sint_uint)
  also have "\<dots> = uint cnt"
    by (rule signed_take_bit_int_eq_self) (fact low u)+
  finally show ?thesis by simp
qed

text \<open>Pages marked dirty.\<close>

fun dirtied :: "event list \<Rightarrow> u64 list" where
  "dirtied [] = []"
| "dirtied (Mem (E_set_page_dirty pg) # es) = pg # dirtied es"
| "dirtied (e # es) = dirtied es"

lemma dirtied_append [simp]: "dirtied (xs @ ys) = dirtied xs @ dirtied ys"
  by (induction xs rule: dirtied.induct) auto

lemma put_events_accounts [simp]:
  "pins (put_events b pgs) = []" "unpins (put_events b pgs) = pgs" "dirtied (put_events b pgs) = (if b then pgs else [])"
proof -
  have d: "dirtied (map (\<lambda>pg. Mem (E_set_page_dirty pg)) xs) = xs" "dirtied (map (\<lambda>pg. Mem (E_put_page pg)) xs) = []"
    "pins (map (\<lambda>pg. Mem (E_set_page_dirty pg)) xs) = []" "unpins (map (\<lambda>pg. Mem (E_set_page_dirty pg)) xs) = []" for xs
    by (induction xs) auto
  show "pins (put_events b pgs) = []" "unpins (put_events b pgs) = pgs" "dirtied (put_events b pgs) = (if b then pgs else [])"
    by (simp_all add: put_events_def d)
qed

end
