(* ===== verification/FileOps.thy ===== *)
theory FileOps
  imports Lifecycle
begin

text \<open>
  The tables of file operations of the three character devices, how a device file leads to its
  table through the numbers the driver registers, and what calls through the tables can do. The
  kernel's side is modelled as documented: a device file carries a major number, and a call to it
  goes to the operation in the table registered under that number; a missing operation is never
  called.
\<close>

section \<open>The tables\<close>

text \<open>
  A null pointer in a table is \<open>None\<close>. A write gets the buffer, the count and the position. The
  owner is the name of the module.
\<close>

definition THIS_MODULE :: string where
  "THIS_MODULE = DRV_NAME"

record file_operations =
  fop_owner :: "string option"
  fop_open :: "(world, int) prog option"
  fop_read :: "(u64 \<Rightarrow> (world, int) prog) option"
  fop_write :: "(u64 \<Rightarrow> u64 \<Rightarrow> u64 \<Rightarrow> (world, int) prog) option"
  fop_release :: "(world, int) prog option"
  fop_mmap :: "(vm_area_struct \<Rightarrow> (world, int \<times> vm_area_struct) prog) option"

definition xpcie_user_fops :: "kapi \<Rightarrow> file_operations" where
  "xpcie_user_fops K = \<lparr>
     fop_owner = Some THIS_MODULE,
     fop_open = Some xpcie_user_open,
     fop_read = Some xpcie_user_read,
     fop_write = Some (\<lambda>buf cnt ppos. xpcie_user_write cnt),
     fop_release = Some xpcie_user_close,
     fop_mmap = Some (xpcie_user_mmap K)\<rparr>"

definition xpcie_h2c_fops :: "kapi \<Rightarrow> file_operations" where
  "xpcie_h2c_fops K = \<lparr>
     fop_owner = Some THIS_MODULE,
     fop_open = Some xpcie_h2c_open,
     fop_read = Some xpcie_h2c_read,
     fop_write = Some (xpcie_h2c_write K),
     fop_release = Some xpcie_h2c_close,
     fop_mmap = Some (xpcie_h2c_mmap K)\<rparr>"

definition xpcie_c2h_fops :: "kapi \<Rightarrow> file_operations" where
  "xpcie_c2h_fops K = \<lparr>
     fop_owner = Some THIS_MODULE,
     fop_open = None, fop_read = None, fop_write = None,
     fop_release = Some xpcie_c2h_close,
     fop_mmap = None\<rparr>"

fun fops_table :: "kapi \<Rightarrow> fops_ref \<Rightarrow> file_operations" where
  "fops_table K Ref_user_fops = xpcie_user_fops K"
| "fops_table K Ref_h2c_fops = xpcie_h2c_fops K"
| "fops_table K Ref_c2h_fops = xpcie_c2h_fops K"

text \<open>There are three tables, which the automation can go through one by one.\<close>

instantiation fops_ref :: enum
begin

definition enum_fops_ref :: "fops_ref list" where
  "enum_fops_ref = [Ref_user_fops, Ref_h2c_fops, Ref_c2h_fops]"

definition enum_all_fops_ref :: "(fops_ref \<Rightarrow> bool) \<Rightarrow> bool" where
  "enum_all_fops_ref P \<longleftrightarrow> P Ref_user_fops \<and> P Ref_h2c_fops \<and> P Ref_c2h_fops"

definition enum_ex_fops_ref :: "(fops_ref \<Rightarrow> bool) \<Rightarrow> bool" where
  "enum_ex_fops_ref P \<longleftrightarrow> P Ref_user_fops \<or> P Ref_h2c_fops \<or> P Ref_c2h_fops"

instance
proof
  show u: "(UNIV :: fops_ref set) = set enum_class.enum"
    using fops_ref.exhaust by (auto simp: enum_fops_ref_def)
  show "distinct (enum_class.enum :: fops_ref list)" by (simp add: enum_fops_ref_def)
  show "enum_class.enum_all P \<longleftrightarrow> Ball UNIV P" for P :: "fops_ref \<Rightarrow> bool"
    by (simp add: u enum_all_fops_ref_def enum_fops_ref_def)
  show "enum_class.enum_ex P \<longleftrightarrow> Bex UNIV P" for P :: "fops_ref \<Rightarrow> bool"
    by (simp add: u enum_ex_fops_ref_def enum_fops_ref_def)
qed

end

lemma all_fops: "(\<forall>f. P f) \<longleftrightarrow> P Ref_user_fops \<and> P Ref_h2c_fops \<and> P Ref_c2h_fops"
  by (simp only: enum_all_fops_ref_def [symmetric] enum_UNIV ball_UNIV [symmetric] flip: enum_all)

section \<open>Calls through a table\<close>

datatype file_call =
    Call_open
  | Call_read u64
  | Call_write u64 u64 u64 \<comment> \<open>buffer, count, position\<close>
  | Call_mmap vm_area_struct
  | Call_release

fun call_handler :: "file_operations \<Rightarrow> file_call \<Rightarrow> (world, int) prog option" where
  "call_handler t Call_open = fop_open t"
| "call_handler t (Call_read cnt) = map_option (\<lambda>h. h cnt) (fop_read t)"
| "call_handler t (Call_write buf cnt ppos) = map_option (\<lambda>h. h buf cnt ppos) (fop_write t)"
| "call_handler t (Call_mmap vma) = map_option (\<lambda>h. mbind (h vma) (\<lambda>(rc, _). ret rc)) (fop_mmap t)"
| "call_handler t Call_release = fop_release t"

fun is_write :: "file_call \<Rightarrow> bool" where
  "is_write (Call_write buf cnt ppos) = True"
| "is_write c = False"

text \<open>The operations that act on the card or on memory: the write to the host-to-card device.\<close>

definition quiet_call :: "fops_ref \<Rightarrow> file_call \<Rightarrow> bool" where
  "quiet_call f c \<longleftrightarrow> f \<noteq> Ref_h2c_fops \<or> \<not> is_write c"

definition is_remap :: "event \<Rightarrow> bool" where
  "is_remap e = (case e of Pci (E_remap_pfn a p n r) \<Rightarrow> True | _ \<Rightarrow> False)"

lemma is_remapE: "is_remap e \<Longrightarrow> (\<And>a p n r. e = Pci (E_remap_pfn a p n r) \<Longrightarrow> P) \<Longrightarrow> P"
  by (auto simp: is_remap_def split: event.splits pci_event.splits)

lemma remaps_pci: "list_all is_remap es \<Longrightarrow> (\<forall>e \<in> set es. \<exists>x. e = Pci x) \<and> iomaps es = [] \<and> iounmaps es = []"
  by (induction es) (auto elim!: is_remapE)

text \<open>
  The contract of a device whose calls are quiet: a call returns, and all it has done is to map
  pages into the address space of its caller.
\<close>

locale quiet_device =
  fixes t :: file_operations and q :: "file_call \<Rightarrow> bool"
  assumes handler_quiet: "call_handler t c = Some h \<Longrightarrow> q c \<Longrightarrow>
    runs h w (\<lambda>rc w'. \<exists>es. w' = logged w es \<and> list_all is_remap es)"
begin

lemma call_effect:
  assumes "call_handler t c = Some h" and "q c" and "h w = Inr (rc, w')"
  obtains es where "w' = logged w es" "list_all is_remap es"
  using runsD [OF handler_quiet [OF assms(1,2)] assms(3)] by blast

lemma call_pci_only:
  assumes "call_handler t c = Some h" and "q c" and "h w = Inr (rc, w')"
  shows "pci_only w w'"
  by (rule call_effect [OF assms]) (use remaps_pci in \<open>simp add: pci_only_basic(1)\<close>)

lemma call_inv:
  assumes c: "call_handler t c = Some h" "q c" "h w = Inr (rc, w')" and inv: "life_inv (l, w)" "l \<noteq> Unloaded"
  shows "life_inv (l, w')"
proof (rule call_effect [OF c])
  fix es
  assume es: "w' = logged w es" "list_all is_remap es"
  then show ?thesis
    using inv remaps_pci [OF es(2)]
    by (intro pci_only_inv [OF call_pci_only [OF c] inv(1,2,2)]) (auto simp: life_inv_def bars_balanced_def)
qed

end

lemma mmap_quiet: "runs (mbind (mmap_bar K b vma) (\<lambda>(rc, _). ret rc)) w
    (\<lambda>rc w'. \<exists>es. w' = logged w es \<and> list_all is_remap es)"
proof -
  have "runs (mmap_bar K b vma) w (\<lambda>r w'. \<exists>es. w' = logged w es \<and> list_all is_remap es)"
    by (rule runs_weaken [OF mmap_bar_trace]) (fastforce simp: list_all_iff is_remap_def)
  then show ?thesis unfolding runs_mbind by (rule runs_weaken) auto
qed

lemma ret_quiet: "runs (ret v) w (\<lambda>rc w'. \<exists>es. w' = logged w es \<and> list_all is_remap es)"
  by (simp add: exI [where x = "[]"])

lemmas fops_defs = xpcie_user_fops_def xpcie_h2c_fops_def xpcie_c2h_fops_def
lemmas trivial_fops = xpcie_user_open_def xpcie_user_read_def xpcie_user_write_def xpcie_user_close_def
  xpcie_h2c_open_def xpcie_h2c_read_def xpcie_h2c_close_def xpcie_c2h_close_def

lemma table_quiet:
  assumes "call_handler (fops_table K f) c = Some h" and "quiet_call f c"
  shows "runs h w (\<lambda>rc w'. \<exists>es. w' = logged w es \<and> list_all is_remap es)"
  using assms
  by (cases f; cases c)
    (auto simp: fops_defs trivial_fops quiet_call_def xpcie_user_mmap_def xpcie_h2c_mmap_def
      simp del: runs_mbind runs_ret intro: mmap_quiet ret_quiet)

interpretation fops: quiet_device "fops_table K f" "quiet_call f" for K f
  by (rule quiet_device.intro) (rule table_quiet)

section \<open>From a device file to a table\<close>

text \<open>The character device numbers and the device files that exist after a trace.\<close>

fun chrdev_step :: "event \<Rightarrow> (int \<rightharpoonup> fops_ref) \<Rightarrow> (int \<rightharpoonup> fops_ref)" where
  "chrdev_step (Reg (E_register_chrdev n f rc)) m = (if 0 \<le> rc then m(rc \<mapsto> f) else m)"
| "chrdev_step (Reg (E_unregister_chrdev mj n)) m = m(mj := None)"
| "chrdev_step e m = m"

definition chrdevs :: "event list \<Rightarrow> int \<rightharpoonup> fops_ref" where
  "chrdevs es = fold chrdev_step es Map.empty"

definition add_node :: "kapi \<Rightarrow> u64 \<Rightarrow> string \<Rightarrow> int \<times> int \<Rightarrow> (string \<rightharpoonup> int \<times> int) \<Rightarrow> (string \<rightharpoonup> int \<times> int)" where
  "add_node K p n d m = (if k_IS_ERR K p then m else m(n \<mapsto> d))"

fun node_step :: "kapi \<Rightarrow> event \<Rightarrow> (string \<rightharpoonup> int \<times> int) \<Rightarrow> (string \<rightharpoonup> int \<times> int)" where
  "node_step K (Reg (E_device_create mj mi n p)) m = add_node K p n (mj, mi) m"
| "node_step K (Reg (E_device_destroy mj mi)) m = (\<lambda>n. if m n = Some (mj, mi) then None else m n)"
| "node_step K e m = m"

definition nodes :: "kapi \<Rightarrow> event list \<Rightarrow> string \<rightharpoonup> int \<times> int" where
  "nodes K es = fold (node_step K) es Map.empty"

definition reaches_ops :: "kapi \<Rightarrow> event list \<Rightarrow> string \<rightharpoonup> fops_ref" where
  "reaches_ops K es n = (case nodes K es n of None \<Rightarrow> None | Some (mj, mi) \<Rightarrow> chrdevs es mj)"

lemma chrdevs_append: "chrdevs (xs @ ys) = fold chrdev_step ys (chrdevs xs)"
  by (simp add: chrdevs_def)

lemma nodes_append: "nodes K (xs @ ys) = fold (node_step K) ys (nodes K xs)"
  by (simp add: nodes_def)

text \<open>Only registrations count.\<close>

lemma not_reg_step: "\<forall>r. e \<noteq> Reg r \<Longrightarrow> chrdev_step e m = m \<and> node_step K e m' = m'"
  by (cases e) auto

lemma no_reg_files:
  assumes "\<forall>e \<in> set es. \<forall>r. e \<noteq> Reg r"
  shows "chrdevs (xs @ es) = chrdevs xs" and "nodes K (xs @ es) = nodes K xs"
proof -
  have "fold chrdev_step es m = m" for m
    using assms by (induction es arbitrary: m) (auto simp: not_reg_step)
  moreover have "fold (node_step K) es m = m" for m
    using assms by (induction es arbitrary: m) (auto simp: not_reg_step)
  ultimately show "chrdevs (xs @ es) = chrdevs xs" "nodes K (xs @ es) = nodes K xs"
    by (simp_all add: chrdevs_append nodes_append)
qed

text \<open>
  Asked for any number, the kernel gives one that is not in use. The numbers registered with the
  driver's variables lead to the driver's tables.
\<close>

definition chrdev_ok :: "kapi \<Rightarrow> bool" where
  "chrdev_ok K \<longleftrightarrow> (\<forall>w n. k_register_chrdev K w n < 0 \<or> chrdevs (trace w) (k_register_chrdev K w n) = None)"

definition majors_ok :: "world \<Rightarrow> bool" where
  "majors_ok w \<longleftrightarrow> chrdevs (trace w) (major_user w) = Some Ref_user_fops
     \<and> chrdevs (trace w) (major_h2c w) = Some Ref_h2c_fops \<and> chrdevs (trace w) (major_c2h w) = Some Ref_c2h_fops"

text \<open>The driver's device files are those that could be made, with the driver's numbers.\<close>

definition driver_node :: "world \<Rightarrow> string \<Rightarrow> int \<times> int \<Rightarrow> bool" where
  "driver_node w n d \<longleftrightarrow> (n, d) \<in> {(DRV_NAME_USER, major_user w, user_minor),
     (DRV_NAME_H2C, major_h2c w, h2c_minor), (DRV_NAME_C2H, major_c2h w, c2h_minor)}"

definition nodes_ok :: "kapi \<Rightarrow> world \<Rightarrow> bool" where
  "nodes_ok K w \<longleftrightarrow> (\<forall>n d. nodes K (trace w) n = Some d \<longrightarrow> driver_node w n d)"

lemma names_distinct [simp]: "DRV_NAME_USER \<noteq> DRV_NAME_H2C" "DRV_NAME_USER \<noteq> DRV_NAME_C2H" "DRV_NAME_H2C \<noteq> DRV_NAME_C2H"
  "DRV_NAME_H2C \<noteq> DRV_NAME_USER" "DRV_NAME_C2H \<noteq> DRV_NAME_USER" "DRV_NAME_C2H \<noteq> DRV_NAME_H2C"
  by (simp_all add: DRV_NAME_USER_def DRV_NAME_H2C_def DRV_NAME_C2H_def)

text \<open>Registering one number.\<close>

lemma register_number:
  assumes K: "chrdev_ok K" and bad: "\<And>rc w1. (rc :: int) < 0 \<Longrightarrow> Q (- 1) w1"
    and good: "\<And>rc w1. chrdevs (trace w) rc = None \<Longrightarrow> chrdevs (trace w1) = (chrdevs (trace w))(rc \<mapsto> f) \<Longrightarrow>
      nodes K (trace w1) = nodes K (trace w) \<Longrightarrow> major_user w1 = major_user w \<Longrightarrow> major_h2c w1 = major_h2c w \<Longrightarrow>
      runs (g rc) w1 Q"
  shows "runs (mbind (register_chrdev K n f) (\<lambda>rc. if rc < 0 then ret (- 1) else g rc)) w Q"
proof -
  let ?rc = "k_register_chrdev K w n"
  have f: "chrdevs (trace w) ?rc = None" if "\<not> ?rc < 0"
    using K that by (auto simp: chrdev_ok_def)
  show ?thesis
    using good [OF f, of "logged w [Reg (E_register_chrdev n f ?rc)]"] bad [of ?rc]
    by (auto simp: Let_def logged_def chrdevs_append nodes_append)
qed

text \<open>The device files that \<open>create_devices\<close> adds.\<close>

definition with_files :: "kapi \<Rightarrow> world \<Rightarrow> (string \<rightharpoonup> int \<times> int) \<Rightarrow> (string \<rightharpoonup> int \<times> int)" where
  "with_files K w m = add_node K (xpcie_class_c2h w) DRV_NAME_C2H (major_c2h w, c2h_minor)
     (add_node K (xpcie_class_h2c w) DRV_NAME_H2C (major_h2c w, h2c_minor)
     (add_node K (xpcie_class_user w) DRV_NAME_USER (major_user w, user_minor) m))"

lemma create_devices_files:
  "runs (create_devices K) w (\<lambda>rc w'. chrdevs (trace w') = chrdevs (trace w) \<and> major_user w' = major_user w
    \<and> major_h2c w' = major_h2c w \<and> major_c2h w' = major_c2h w
    \<and> (rc = 0 \<longrightarrow> nodes K (trace w') = with_files K w' (nodes K (trace w))))"
  unfolding create_devices_def by (simp add: Let_def with_files_def logged_def chrdevs_append nodes_append)

lemma register_devices_files:
  assumes "chrdev_ok K"
  shows "runs (register_devices K) w (\<lambda>rc w'. rc = 0 \<longrightarrow> majors_ok w'
    \<and> nodes K (trace w') = with_files K w' (nodes K (trace w)))"
  unfolding register_devices_def
  by (rule register_number [OF assms], simp, simp only: runs_mthen runs_modify)+
    (rule runs_weaken [OF create_devices_files], auto simp: majors_ok_def)

lemma fold_files_same:
  assumes "\<And>e m. e \<in> set es \<Longrightarrow> node_step K e m = m"
  shows "fold (node_step K) es m = m"
  using assms by (induction es arbitrary: m) auto

lemma register_devices_fail_nodes:
  "runs (register_devices K) w (\<lambda>rc w'. rc \<noteq> 0 \<longrightarrow> nodes K (trace w') = nodes K (trace w))"
  unfolding register_devices_def create_devices_def by (simp add: Let_def logged_def nodes_append)

lemma xpcie_init_files:
  assumes "chrdev_ok K"
  shows "runs (xpcie_init K) w (\<lambda>rc w'. if rc = 0 then majors_ok w' \<and> nodes K (trace w') = with_files K w' (nodes K (trace w))
    else nodes K (trace w') = nodes K (trace w))"
proof -
  let ?w1 = "logged w [Reg (E_register_driver (k_pci_register_driver K w))]"
  have n: "nodes K (trace ?w1) = nodes K (trace w)" by (simp add: nodes_append)
  have "runs (register_devices K) ?w1 (\<lambda>rc w'. if rc = 0 then majors_ok w' \<and> nodes K (trace w') = with_files K w' (nodes K (trace w))
      else nodes K (trace w') = nodes K (trace w))"
    by (rule runs_weaken [OF runs_conj [OF register_devices_files [OF assms] register_devices_fail_nodes]])
      (simp add: n [unfolded logged_sel])
  then show ?thesis
    by (cases "k_pci_register_driver K w = 0") (simp_all add: xpcie_init_def Let_def n [unfolded logged_sel])
qed

lemma xpcie_exit_files:
  "runs xpcie_exit w (\<lambda>_ w'. nodes_ok K w \<longrightarrow> nodes K (trace w') = Map.empty)"
proof -
  have "nodes K (trace w) n = None" if "nodes_ok K w" "nodes K (trace w) n \<noteq> Some (major_user w, user_minor)"
    "nodes K (trace w) n \<noteq> Some (major_h2c w, h2c_minor)" "nodes K (trace w) n \<noteq> Some (major_c2h w, c2h_minor)" for n
    using that by (cases "nodes K (trace w) n") (auto simp: nodes_ok_def driver_node_def)
  then show ?thesis by (auto simp: xpcie_exit_def nodes_append)
qed

lemma with_files_driver: "with_files K w Map.empty n = Some d \<Longrightarrow> driver_node w n d"
  by (auto simp: with_files_def add_node_def driver_node_def split: if_splits)

text \<open>What other steps do to the files.\<close>

lemma files_keep:
  assumes "registered w' = registered w" and "trace w' = trace w @ es" and "\<forall>e \<in> set es. \<forall>r. e \<noteq> Reg r"
  shows "majors_ok w' = majors_ok w" and "nodes_ok K w' = nodes_ok K w" and "nodes K (trace w') = nodes K (trace w)"
proof -
  have m: "major_user w' = major_user w" "major_h2c w' = major_h2c w" "major_c2h w' = major_c2h w"
    using assms(1) by (simp_all add: registered_def)
  show n: "nodes K (trace w') = nodes K (trace w)"
    using no_reg_files [OF assms(3)] by (simp add: assms(2))
  show "majors_ok w' = majors_ok w" using m no_reg_files [OF assms(3)] by (simp add: majors_ok_def assms(2))
  show "nodes_ok K w' = nodes_ok K w" using m n by (simp add: nodes_ok_def driver_node_def)
qed

section \<open>Module, device and open files together\<close>

text \<open>The steps that load and unload the module, and that bind and unbind a device.\<close>

inductive module_step :: "kapi \<Rightarrow> life \<times> world \<Rightarrow> life \<times> world \<Rightarrow> bool" for K where
  "xpcie_init K w = Inr (0, w') \<Longrightarrow> module_step K (Unloaded, w) (Loaded, w')"
| "xpcie_init K w = Inr (rc, w') \<Longrightarrow> rc \<noteq> 0 \<Longrightarrow> module_step K (Unloaded, w) (Unloaded, w')"
| "xpcie_exit w = Inr ((), w') \<Longrightarrow> module_step K (Loaded, w) (Unloaded, w')"
| "pdev \<noteq> 0 \<Longrightarrow> xpcie_probe K pdev w = Inr (0, w') \<Longrightarrow> module_step K (Loaded, w) (Bound pdev, w')"
| "pdev \<noteq> 0 \<Longrightarrow> xpcie_probe K pdev w = Inr (rc, w') \<Longrightarrow> rc \<noteq> 0 \<Longrightarrow> module_step K (Loaded, w) (Loaded, w')"
| "xpcie_remove pdev w = Inr ((), w') \<Longrightarrow> module_step K (Bound pdev, w) (Loaded, w')"

lemma module_step_life: "module_step K s s' \<Longrightarrow> life_step K s s'"
  by (induction rule: module_step.induct) (auto intro: life_step.intros)

text \<open>
  The state has the list of open files, each with its table. A module cannot be unloaded while a
  file is open whose table names it as owner. A file without an open operation can be opened.
\<close>

fun call_ok :: "file_call \<Rightarrow> bool" where
  "call_ok (Call_write buf cnt ppos) = user_buffer buf cnt"
| "call_ok c = True"

inductive sys_step :: "kapi \<Rightarrow> life \<times> world \<times> fops_ref list \<Rightarrow> life \<times> world \<times> fops_ref list \<Rightarrow> bool" for K where
  module: "module_step K (l, w) (l', w') \<Longrightarrow>
    l \<noteq> Unloaded \<and> l' = Unloaded \<longrightarrow> (\<forall>f \<in> set fs. fop_owner (fops_table K f) \<noteq> Some THIS_MODULE) \<Longrightarrow>
    sys_step K (l, w, fs) (l', w', fs)"
| open_default: "reaches_ops K (trace w) n = Some f \<Longrightarrow> fop_open (fops_table K f) = None \<Longrightarrow>
    sys_step K (l, w, fs) (l, w, f # fs)"
| open_file: "reaches_ops K (trace w) n = Some f \<Longrightarrow> fop_open (fops_table K f) = Some h \<Longrightarrow> h w = Inr (0, w') \<Longrightarrow>
    sys_step K (l, w, fs) (l, w', f # fs)"
| call: "f \<in> set fs \<Longrightarrow> call_handler (fops_table K f) c = Some h \<Longrightarrow> call_ok c \<Longrightarrow> h w = Inr (rc, w') \<Longrightarrow>
    sys_step K (l, w, fs) (l, w', fs)"
| close: "f \<in> set fs \<Longrightarrow> fop_release (fops_table K f) = Some h \<Longrightarrow> h w = Inr (rc, w') \<Longrightarrow>
    sys_step K (l, w, fs) (l, w', remove1 f fs)"

definition sys_inv :: "kapi \<Rightarrow> life \<times> world \<times> fops_ref list \<Rightarrow> bool" where
  "sys_inv K = (\<lambda>(l, w, fs). life_inv (l, w)
     \<and> (if l = Unloaded then fs = [] \<and> nodes K (trace w) = Map.empty else majors_ok w \<and> nodes_ok K w))"

text \<open>A device file of the driver leads to the table of its own name.\<close>

definition own_ops :: "string \<Rightarrow> fops_ref \<Rightarrow> bool" where
  "own_ops n f \<longleftrightarrow> (n, f) \<in> {(DRV_NAME_USER, Ref_user_fops), (DRV_NAME_H2C, Ref_h2c_fops), (DRV_NAME_C2H, Ref_c2h_fops)}"

lemma sys_inv_reaches:
  assumes "sys_inv K (l, w, fs)" and "reaches_ops K (trace w) n = Some f"
  shows "l \<noteq> Unloaded \<and> own_ops n f"
proof -
  obtain mj mi where n: "nodes K (trace w) n = Some (mj, mi)" "chrdevs (trace w) mj = Some f"
    using assms(2) by (auto simp: reaches_ops_def split: option.splits)
  then have l: "l \<noteq> Unloaded" "majors_ok w" "nodes_ok K w" using assms(1) by (auto simp: sys_inv_def split: if_splits)
  have "driver_node w n (mj, mi)" using l(3) n(1) by (simp add: nodes_ok_def)
  then show ?thesis using l(1,2) n(2) by (auto simp: driver_node_def majors_ok_def own_ops_def)
qed

lemma pci_only_files:
  assumes "pci_only w w'"
  shows "majors_ok w' = majors_ok w \<and> nodes_ok K w' = nodes_ok K w"
proof -
  obtain es where es: "trace w' = trace w @ es" "\<forall>e \<in> set es. \<exists>x. e = Pci x" "registered w' = registered w"
    using assms by (auto simp: pci_only_def)
  then have "\<forall>e \<in> set es. \<forall>r. e \<noteq> Reg r" by fastforce
  then show ?thesis using files_keep [OF es(3,1)] by simp
qed

lemma write_files:
  assumes K: "kernel_ok K M" and buf: "user_buffer buf cnt"
    and run: "xpcie_h2c_write K buf cnt ppos w = Inr (rc, w')" and inv: "life_inv (l, w)"
  shows "majors_ok w' = majors_ok w \<and> nodes_ok K w' = nodes_ok K w"
proof -
  have "h2c_done K M w buf cnt ppos rc w'"
    using h2c_write_result [of K M cnt buf w ppos] K buf inv run
    by (simp add: kernel_ok_def user_buffer_def life_inv_def h2c_result_def)
  then obtain hs m s pgs n virt bus j ds vs where h: "list_all heap_event hs"
    and w': "w' = put_descs (logged w (write_events K w buf hs m s pgs n virt bus j vs)) virt ds"
    unfolding h2c_done_def by blast
  have "\<forall>e \<in> set (write_events K w buf hs m s pgs n virt bus j vs). \<forall>r. e \<noteq> Reg r"
    using write_events_kinds [OF h] by blast
  then show ?thesis unfolding w' by (intro conjI files_keep) (simp_all add: registered_same)
qed

text \<open>A call through an open file, whatever it is.\<close>

lemma call_sys_inv:
  assumes K: "kernel_ok K M" and c: "call_handler (fops_table K f) c = Some h" "call_ok c" "h w = Inr (rc, w')"
    and inv: "life_inv (l, w)" "l \<noteq> Unloaded" "majors_ok w" "nodes_ok K w"
  shows "life_inv (l, w') \<and> majors_ok w' \<and> nodes_ok K w'"
proof (cases "quiet_call f c")
  case True
  then show ?thesis
    using fops.call_inv [OF c(1) True c(3) inv(1,2)] pci_only_files [OF fops.call_pci_only [OF c(1) True c(3)]] inv
    by simp
next
  case False
  then obtain buf cnt ppos where "f = Ref_h2c_fops" "c = Call_write buf cnt ppos"
    by (cases c) (auto simp: quiet_call_def)
  then have "user_buffer buf cnt" "xpcie_h2c_write K buf cnt ppos w = Inr (rc, w')"
    using c by (auto simp: xpcie_h2c_fops_def)
  from write_inv [OF K this inv(1)] write_files [OF K this inv(1)] inv show ?thesis by simp
qed

lemma module_sys_inv:
  assumes K: "kernel_ok K M" "chrdev_ok K" and step: "module_step K (l, w) (l', w')"
    and inv: "sys_inv K (l, w, fs)" "l \<noteq> Unloaded \<and> l' = Unloaded \<longrightarrow> fs = []"
  shows "sys_inv K (l', w', fs)"
proof -
  have life: "life_inv (l, w)" using inv by (simp add: sys_inv_def)
  have life': "life_inv (l', w')" by (rule life_step_inv [OF K(1) module_step_life [OF step] life])
  have pci: "sys_inv K (l', w', fs)" if "pci_only w w'" "l \<noteq> Unloaded" "l' \<noteq> Unloaded"
    using pci_only_files [OF that(1), of K] inv(1) life' that by (simp add: sys_inv_def)
  have b: "length (bar w) = 2" using life by (simp add: life_inv_def bars_balanced_def)
  have probe: "pci_only w w'" if "xpcie_probe K pdev w = Inr (rc, w')" "pdev \<noteq> 0" for pdev rc
    using runsD [OF xpcie_probe_runs [OF b that(2)] that(1)] by (rule probe_pci_only)
  show ?thesis
    using step
  proof (cases rule: module_step.cases)
    case 1
    then show ?thesis
      using runsD [OF xpcie_init_files [OF K(2)] 1(3)] inv life' with_files_driver
      by (auto simp: sys_inv_def nodes_ok_def)
  next
    case (2 rc)
    then show ?thesis
      using runsD [OF xpcie_init_files [OF K(2)] 2(3)] inv life' by (simp add: sys_inv_def)
  next
    case 3
    then show ?thesis
      using runsD [OF xpcie_exit_files 3(3), of K] inv life' by (simp add: sys_inv_def)
  next
    case (4 pdev)
    then show ?thesis using pci probe by simp
  next
    case (5 pdev rc)
    then show ?thesis using pci probe by simp
  next
    case (6 pdev)
    then show ?thesis using pci runsD [OF remove_pci_only [OF b] 6(3)] by simp
  qed
qed

lemma table_owner [simp]: "fop_owner (fops_table K f) = Some THIS_MODULE"
  using all_fops [of "\<lambda>f. fop_owner (fops_table K f) = Some THIS_MODULE"] by (simp add: fops_defs)

lemma sys_step_inv:
  assumes K: "kernel_ok K M" "chrdev_ok K" and step: "sys_step K s s'" and inv: "sys_inv K s"
  shows "sys_inv K s'"
  using step
proof (cases rule: sys_step.cases)
  case (module l w l' w' fs)
  show ?thesis
    unfolding module(2) by (rule module_sys_inv [OF K module(3)]) (use inv module in auto)
next
  case (open_default w n f l fs)
  then have l: "l \<noteq> Unloaded" using sys_inv_reaches [of K l w fs] inv by simp
  then show ?thesis using inv open_default(1,2) by (simp add: sys_inv_def)
next
  case (open_file w n f h w' l fs)
  then have l: "l \<noteq> Unloaded" using sys_inv_reaches [of K l w fs] inv by simp
  then show ?thesis
    using call_sys_inv [OF K(1), of f Call_open h w 0 w' l] inv open_file by (simp add: sys_inv_def)
next
  case (call f fs c h w rc w' l)
  then have l: "l \<noteq> Unloaded" using inv by (auto simp: sys_inv_def)
  then show ?thesis
    using call_sys_inv [OF K(1) call(4-6), of l] inv call(1,2) by (simp add: sys_inv_def)
next
  case (close f fs h w rc w' l)
  then have l: "l \<noteq> Unloaded" using inv by (auto simp: sys_inv_def)
  then show ?thesis
    using call_sys_inv [OF K(1), of f Call_release h w rc w' l] inv close by (simp add: sys_inv_def)
qed

definition sys_reachable :: "kapi \<Rightarrow> world \<Rightarrow> life \<times> world \<times> fops_ref list \<Rightarrow> bool" where
  "sys_reachable K w0 = (sys_step K)\<^sup>*\<^sup>* (Unloaded, w0, [])"

lemma sys_reachable_inv:
  assumes K: "kernel_ok K M" "chrdev_ok K" and w0: "boot_world w0" and r: "sys_reachable K w0 s"
  shows "sys_inv K s"
  using r unfolding sys_reachable_def
proof (induction rule: rtranclp_induct)
  case base
  have "life_inv (Unloaded, w0)"
    using w0 by (simp add: life_inv_def boot_world_def bars_balanced_def)
  then show ?case using w0 by (simp add: sys_inv_def boot_world_def nodes_def)
next
  case (step s s')
  then show ?case using sys_step_inv [OF K] by blast
qed

end
