(* ===== verification/Loading.thy ===== *)
theory Loading
  imports Lifecycle
begin

text \<open>
  The driver's table for the PCI core, and loading the module as the kernel does it: the driver is
  registered, the kernel probes the devices that are present and match the table, and only then the
  character devices are registered.
\<close>

section \<open>The tables for the PCI core\<close>

text \<open>An entry matches a vendor and a device; a zero entry ends the table.\<close>

record pci_device_id =
  vendor :: u32
  device :: u32

definition PCI_DEVICE :: "u32 \<Rightarrow> u32 \<Rightarrow> pci_device_id" where
  "PCI_DEVICE v d = \<lparr>vendor = v, device = d\<rparr>"

definition pci_ids :: "pci_device_id list" where
  "pci_ids = [PCI_DEVICE 0x10ee 0x7024, PCI_DEVICE 0x10ee 0x7038, PCI_DEVICE 0 0]"

record pci_driver =
  driver_name :: string
  id_table :: "pci_device_id list"
  drv_probe :: "u64 \<Rightarrow> (world, int) prog"
  drv_remove :: "u64 \<Rightarrow> (world, unit) prog"

definition xpcie_driver :: "kapi \<Rightarrow> pci_driver" where
  "xpcie_driver K = \<lparr>driver_name = DRV_NAME, id_table = pci_ids,
     drv_probe = xpcie_probe K, drv_remove = xpcie_remove\<rparr>"

text \<open>The search of the PCI core in such a table.\<close>

fun pci_match :: "pci_device_id list \<Rightarrow> u32 \<times> u32 \<Rightarrow> bool" where
  "pci_match [] d = False"
| "pci_match (e # es) d = (if vendor e = 0 then False else (vendor e, device e) = d \<or> pci_match es d)"

lemma pci_ids_match: "pci_match pci_ids (v, d) \<longleftrightarrow> v = 0x10ee \<and> d \<in> {0x7024, 0x7038}"
  by (auto simp: pci_ids_def PCI_DEVICE_def)

section \<open>Loading with devices present\<close>

type_synonym pci_function = "u64 \<times> u32 \<times> u32"

text \<open>The devices the driver has been bound to are returned.\<close>

fun probe_devices :: "pci_driver \<Rightarrow> pci_function list \<Rightarrow> (world, u64 list) prog" where
  "probe_devices drv [] = ret []"
| "probe_devices drv ((p, d) # ds) =
     (if pci_match (id_table drv) d then
        mbind (drv_probe drv p) (\<lambda>rc. mbind (probe_devices drv ds) (\<lambda>bs. ret (if rc = 0 then p # bs else bs)))
      else probe_devices drv ds)"

definition insmod :: "kapi \<Rightarrow> pci_function list \<Rightarrow> (world, int \<times> u64 list) prog" where
  "insmod K devs = mbind (pci_register_driver K) (\<lambda>rc.
     if rc \<noteq> 0 then ret (- 1, [])
     else mbind (probe_devices (xpcie_driver K) devs) (\<lambda>bs.
          mbind (register_devices K) (\<lambda>rc. ret (rc, bs))))"

lemma insmod_no_devices: "insmod K [] = mbind (xpcie_init K) (\<lambda>rc. ret (rc, []))"
  by (rule ext) (simp add: insmod_def xpcie_init_def mbind_def ret_def split: sum.splits prod.splits)

text \<open>At most one device matches: the world a probe of it leaves.\<close>

definition present :: "pci_function list \<Rightarrow> u64 list" where
  "present devs = map fst (filter (\<lambda>(p, d). pci_match pci_ids d) devs)"

lemma probe_devices_none: "present devs = [] \<Longrightarrow> probe_devices (xpcie_driver K) devs = ret []"
  by (induction devs) (auto simp: present_def xpcie_driver_def split: if_splits)

lemma probe_devices_one:
  "present devs = [p] \<Longrightarrow>
    runs (probe_devices (xpcie_driver K) devs) w Q = runs (xpcie_probe K p) w (\<lambda>rc. Q (if rc = 0 then [p] else []))"
proof (induction devs)
  case (Cons d devs)
  show ?case
  proof (cases "pci_match pci_ids (snd d)")
    case True
    with Cons.prems have "present devs = []" "fst d = p" by (auto simp: present_def case_prod_beta)
    with True show ?thesis
      by (cases d) (simp add: probe_devices_none, simp add: xpcie_driver_def)
  next
    case False
    with Cons.prems have "present devs = [p]" by (simp add: present_def case_prod_beta)
    with False Cons.IH show ?thesis by (cases d) (simp add: xpcie_driver_def)
  qed
qed (simp add: present_def)

section \<open>What a load leaves\<close>

text \<open>A probe takes things only: it neither unmaps, nor releases, nor disables.\<close>

fun gives_back :: "event \<Rightarrow> bool" where
  "gives_back (Pci (E_iounmap d p)) = True"
| "gives_back (Pci (E_release_regions d)) = True"
| "gives_back (Pci (E_disable_device d)) = True"
| "gives_back e = False"

definition takes_only :: "world \<Rightarrow> world \<Rightarrow> bool" where
  "takes_only w w' \<longleftrightarrow> (\<exists>es. trace w' = trace w @ es \<and> (\<forall>e \<in> set es. \<not> gives_back e))"

lemma takes_only_trans [trans]: "takes_only w w1 \<Longrightarrow> takes_only w1 w2 \<Longrightarrow> takes_only w w2"
  by (fastforce simp: takes_only_def)

lemma takes_only_basic [simp]:
  "(\<forall>e \<in> set es. \<not> gives_back e) \<Longrightarrow> takes_only w (logged w es)" "takes_only w (w\<lparr>xpcie_dev := d\<rparr>)"
  "takes_only w (located w)" "takes_only w (mapped_bar K d i w)"
  by (auto simp: takes_only_def mapped_bar_def Let_def)

lemma probe_takes_only:
  assumes "probe_outcome K dev w rc w'"
  shows "takes_only w w'"
proof -
  have me: "takes_only v (logged v es)" if "mask_events dev mrc es" for mrc es v
    using that by (auto simp: mask_events_def)
  have l: "takes_only w (logged (w\<lparr>xpcie_dev := dev\<rparr>) es)" if "\<forall>e \<in> set es. \<not> gives_back e" for es
    by (rule takes_only_trans [OF takes_only_basic(2) takes_only_basic(1) [OF that]])
  show ?thesis
    using assms unfolding probe_outcome_def Let_def
    by (elim disjE conjE exE) (auto intro!: l takes_only_trans [OF _ me] takes_only_trans [OF _ takes_only_basic(3)]
        takes_only_trans [OF _ takes_only_basic(4)])
qed

text \<open>What the register step adds to a world whose device is bound or not.\<close>

definition held :: "life \<Rightarrow> world \<Rightarrow> bool" where
  "held l w \<longleftrightarrow> bars_balanced w \<and> ((\<forall>d. l \<noteq> Bound d) \<longrightarrow> bar w = [0, 0]) \<and> sgms w = Map.empty \<and> page_arrs w = Map.empty
     \<and> sgl_arrs w = Map.empty \<and> desc_arrs w 0 = None \<and> mset (pins (trace w)) = mset (unpins (trace w))"

lemma life_inv_held: "life_inv (l, w) \<longleftrightarrow> held l w
    \<and> mset (released (trace w)) + (if l = Unloaded then {#} else mset (registered w)) \<subseteq># mset (acquired (trace w))"
  by (simp add: life_inv_def held_def)

lemma pci_only_held:
  assumes "pci_only w w'" and "held l w" and "bars_balanced w'" and "(\<forall>d. l' \<noteq> Bound d) \<longrightarrow> bar w' = [0, 0]"
  shows "held l' w'" and "acquired (trace w') = acquired (trace w)" and "released (trace w') = released (trace w)"
proof -
  obtain es where es: "trace w' = trace w @ es" "\<forall>e \<in> set es. \<exists>x. e = Pci x"
    using assms(1) by (auto simp: pci_only_def)
  then have "acquired es = [] \<and> released es = []" "pins es = [] \<and> unpins es = []"
    by (intro no_reg no_mem; fastforce)+
  then show "held l' w'" "acquired (trace w') = acquired (trace w)" "released (trace w') = released (trace w)"
    using assms es by (simp_all add: pci_only_def held_def)
qed

lemma same_hw_held:
  assumes "same_hw w w'" and "trace w' = trace w @ es" and "\<forall>e \<in> set es. \<exists>r. e = Reg r" and "held l w"
  shows "held l w'"
  using same_hw_bars [OF assms(1-3)] assms by (auto simp: held_def same_hw_def)

lemma probe_held:
  assumes "held Unloaded w" and "p \<noteq> 0"
  shows "runs (xpcie_probe K p) w (\<lambda>rc w'. held (if rc = 0 then Bound p else Unloaded) w' \<and> takes_only w w'
    \<and> acquired (trace w') = acquired (trace w) \<and> released (trace w') = released (trace w)
    \<and> (rc = 0 \<longrightarrow> (\<exists>es. trace w' = trace w @ probe_events p @ es)))"
proof -
  have b: "bars_balanced w" "bar w = [0, 0]" "length (bar w) = 2" using assms(1) by (auto simp: held_def)
  show ?thesis
  proof (rule runs_weaken [OF runs_conj [OF xpcie_probe_runs [OF b(3) assms(2)] probe_balanced [OF b(1,2) assms(2)]]], elim conjE)
    fix rc w'
    assume o: "probe_outcome K p w rc w'" and bal: "bars_balanced w'" "rc \<noteq> 0 \<longrightarrow> bar w' = [0, 0]"
    have "\<exists>es. trace w' = trace w @ probe_events p @ es" if "rc = 0"
      using probe_success [OF _ b(3)] o that by blast
    then show "held (if rc = 0 then Bound p else Unloaded) w' \<and> takes_only w w'
        \<and> acquired (trace w') = acquired (trace w) \<and> released (trace w') = released (trace w)
        \<and> (rc = 0 \<longrightarrow> (\<exists>es. trace w' = trace w @ probe_events p @ es))"
      using pci_only_held [OF probe_pci_only [OF o] assms(1) bal(1)] probe_takes_only [OF o] bal(2) by auto
  qed
qed

text \<open>
  Loading with one device present. If it succeeds, the module and its device are in order. If it
  fails after the probe, the device stays bound: everything the probe took is kept.
\<close>

definition insmod_outcome :: "u64 \<Rightarrow> world \<Rightarrow> int \<times> u64 list \<Rightarrow> world \<Rightarrow> bool" where
  "insmod_outcome p w = (\<lambda>(rc, bs) w'. rc \<in> {0, - 1} \<and> bs \<in> {[], [p]} \<and> takes_only w w'
     \<and> (rc = 0 \<longrightarrow> life_inv (if bs = [] then Loaded else Bound p, w'))
     \<and> (bs = [p] \<longrightarrow> (\<exists>es fs. trace w' = trace w @ es @ probe_events p @ fs)))"

lemma insmod_runs:
  assumes inv: "life_inv (Unloaded, w)" and p: "present devs = [p]" "p \<noteq> 0"
  shows "runs (insmod K devs) w (insmod_outcome p w)"
proof (cases "k_pci_register_driver K w = 0")
  case False
  then show ?thesis
    by (simp add: insmod_def Let_def insmod_outcome_def)
next
  case True
  let ?w1 = "logged w [Reg (E_register_driver 0)]"
  have h1: "held Unloaded ?w1" "acquired (trace ?w1) = acquired (trace w) @ [R_driver]" "released (trace ?w1) = released (trace w)"
    using inv by (simp_all add: life_inv_held held_def bars_balanced_def)
  have reg: "mset (released (trace w)) \<subseteq># mset (acquired (trace w))"
    using inv by (simp add: life_inv_def)
  have "runs (xpcie_probe K p) ?w1 (\<lambda>rc w2. runs (register_devices K) w2 (\<lambda>rc'. insmod_outcome p w (rc', if rc = 0 then [p] else [])))"
  proof (rule runs_weaken [OF probe_held [OF h1(1) p(2)]], elim conjE)
    fix rc w2
    assume o: "held (if rc = 0 then Bound p else Unloaded) w2" "takes_only ?w1 w2" "acquired (trace w2) = acquired (trace ?w1)"
      "released (trace w2) = released (trace ?w1)" "rc = 0 \<longrightarrow> (\<exists>es. trace w2 = trace ?w1 @ probe_events p @ es)"
    show "runs (register_devices K) w2 (\<lambda>rc'. insmod_outcome p w (rc', if rc = 0 then [p] else []))"
    proof (rule runs_weaken [OF register_devices_runs], elim conjE exE)
      fix rc' :: int and w3 es
      assume r: "same_hw w2 w3" "trace w3 = trace w2 @ es" "\<forall>e \<in> set es. \<exists>r. e = Reg r" "released es = []"
        "rc' \<in> {0, - 1}" "rc' = 0 \<longrightarrow> R_driver # acquired es = registered w3"
      have h3: "held (if rc = 0 then Bound p else Unloaded) w3" by (rule same_hw_held [OF r(1-3) o(1)])
      have "mset (released (trace w3)) + mset (registered w3) \<subseteq># mset (acquired (trace w3))" if "rc' = 0"
        using r(2,4,6) reg that h1(2,3) o(3,4) by (simp flip: r(6) [rule_format, OF that])
      moreover have "takes_only w w3"
      proof -
        have "\<forall>e \<in> set es. \<not> gives_back e" using r(3) by auto
        then have "takes_only w2 w3" using r(2) by (auto simp: takes_only_def)
        with o(2) have "takes_only ?w1 w3" by (rule takes_only_trans)
        then show ?thesis by (rule takes_only_trans [rotated]) simp
      qed
      moreover have "\<exists>es fs. trace w3 = trace w @ es @ probe_events p @ fs" if "rc = 0"
      proof -
        obtain fs where "trace w2 = trace ?w1 @ probe_events p @ fs" using o(5) \<open>rc = 0\<close> by blast
        then show ?thesis
          by (intro exI [of _ "[Reg (E_register_driver 0)]"] exI [of _ "fs @ es"]) (simp add: r(2))
      qed
      ultimately show "insmod_outcome p w (rc', if rc = 0 then [p] else []) w3"
        using h3 r(5) by (cases "rc = 0") (simp_all add: insmod_outcome_def life_inv_held held_def)
    qed
  qed
  then show ?thesis
    using True by (simp add: insmod_def Let_def probe_devices_one [OF p(1)])
qed

section \<open>A second device\<close>

text \<open>
  The driver has one set of static variables. Probing a second device while the first is bound
  overwrites the mappings recorded for the first.
\<close>

lemma mapped_bar_iomaps:
  assumes "i < length (bar w)" and "k_pci_resource_len K d (int i) \<noteq> 0"
  shows "iomaps (trace (mapped_bar K d i w)) = iomaps (trace w) @ filter (\<lambda>p. p \<noteq> 0) [bar (mapped_bar K d i w) ! i]"
    and "iounmaps (trace (mapped_bar K d i w)) = iounmaps (trace w)"
  using assms by (simp_all add: mapped_bar_def Let_def)

lemma probe_overwrites:
  assumes o: "probe_outcome K d w 0 w'" and l: "length (bar w) = 2"
    and len: "k_pci_resource_len K d 0 \<noteq> 0" "k_pci_resource_len K d 1 \<noteq> 0"
  shows "length (bar w') = 2 \<and> iounmaps (trace w') = iounmaps (trace w)
    \<and> iomaps (trace w') = iomaps (trace w) @ filter (\<lambda>p. p \<noteq> 0) (bar w')"
proof -
  let ?w4 = "logged (w\<lparr>xpcie_dev := d\<rparr>) (probe_events d)"
  define a where "a = mapped_bar K d 0 ?w4"
  define b where "b = mapped_bar K d 1 a"
  from o obtain mrc es where es: "mask_events d mrc es" "w' = logged (located b) es"
    by (auto simp: probe_outcome_def Let_def a_def b_def probe_events_def)
  have l4: "length (bar ?w4) = 2" "iomaps (trace ?w4) = iomaps (trace w)" "iounmaps (trace ?w4) = iounmaps (trace w)"
    using l by (simp_all add: probe_events_def)
  have ne: "0 < length (bar ?w4)" using l by simp
  have la: "length (bar a) = 2" "length (bar b) = 2" using l4 by (simp_all add: a_def b_def)
  have ma: "iomaps (trace a) = iomaps (trace w) @ filter (\<lambda>p. p \<noteq> 0) [bar a ! 0]" "iounmaps (trace a) = iounmaps (trace w)"
    using mapped_bar_iomaps [OF ne, of K d] l4(2,3) len(1) by (simp_all add: a_def del: logged_sel filter.simps)
  have mb: "iomaps (trace b) = iomaps (trace a) @ filter (\<lambda>p. p \<noteq> 0) [bar b ! 1]" "iounmaps (trace b) = iounmaps (trace a)"
    using mapped_bar_iomaps [of 1 a K d] la len(2) by (simp_all add: b_def del: filter.simps)
  have "bar b ! 0 = bar a ! 0" unfolding b_def by (rule bar_mapped_bar) simp
  moreover have "bar b = [bar b ! 0, bar b ! 1]"
    using la(2) by (cases "bar b"; cases "tl (bar b)") auto
  ultimately have "filter (\<lambda>p. p \<noteq> 0) (bar b) = filter (\<lambda>p. p \<noteq> 0) [bar a ! 0] @ filter (\<lambda>p. p \<noteq> 0) [bar b ! 1]"
    by (metis append_Cons append_Nil filter_append)
  then show ?thesis
    using la ma mb mask_events_maps [OF es(1)] by (simp add: es(2))
qed

lemma remove_maps:
  assumes "length (bar w) = 2"
  shows "runs (xpcie_remove d) w (\<lambda>_ w'. bar w' = [0, 0] \<and> iomaps (trace w') = iomaps (trace w)
    \<and> iounmaps (trace w') = iounmaps (trace w) @ filter (\<lambda>p. p \<noteq> 0) (bar w))"
  using assms by (simp add: xpcie_remove_runs)

lemma second_device_maps:
  assumes "bars_balanced w" and "d2 \<noteq> 0" and "xpcie_probe K d2 w = Inr (0, w1)"
    and len: "k_pci_resource_len K d2 0 \<noteq> 0" "k_pci_resource_len K d2 1 \<noteq> 0"
    and r: "xpcie_remove d2 w1 = Inr ((), w2)" "xpcie_remove d1 w2 = Inr ((), w3)"
  shows "bar w3 = [0, 0] \<and> mset (iomaps (trace w3)) = mset (iounmaps (trace w3)) + mset (filter (\<lambda>p. p \<noteq> 0) (bar w))"
proof -
  have l: "length (bar w) = 2" using assms(1) by (simp add: bars_balanced_def)
  have p: "length (bar w1) = 2 \<and> iounmaps (trace w1) = iounmaps (trace w)
    \<and> iomaps (trace w1) = iomaps (trace w) @ filter (\<lambda>p. p \<noteq> 0) (bar w1)"
    using probe_overwrites [OF runsD [OF xpcie_probe_runs [OF l assms(2)] assms(3)] l len] .
  have q: "bar w2 = [0, 0] \<and> iomaps (trace w2) = iomaps (trace w1)
    \<and> iounmaps (trace w2) = iounmaps (trace w1) @ filter (\<lambda>p. p \<noteq> 0) (bar w1)"
    using runsD [OF remove_maps r(1)] p by simp
  have "bar w3 = [0, 0] \<and> iomaps (trace w3) = iomaps (trace w2) \<and> iounmaps (trace w3) = iounmaps (trace w2)"
    using runsD [OF remove_maps [of w2] r(2)] q by simp
  with p q assms(1) show ?thesis by (simp add: bars_balanced_def)
qed

end
