(* ===== verification/CardMemory.thy ===== *)
theory CardMemory
  imports Chain SgMapper "HOL-Library.Multiset"
begin

text \<open>
  The memory of the card and of the host: what the copies that a list of descriptors stands for
  leave in the card's memory, in whatever order the engine performs them.
\<close>

section \<open>Copying bytes\<close>

text \<open>\<open>host\<close> gives the byte at a bus address. Each pair is a bus address and a card address.\<close>

fun copy_bytes :: "(u64 \<Rightarrow> u8) \<Rightarrow> (u64 \<times> u64) list \<Rightarrow> (u64 \<Rightarrow> u8) \<Rightarrow> u64 \<Rightarrow> u8" where
  "copy_bytes host [] cm = cm"
| "copy_bytes host ((s, d) # ps) cm = copy_bytes host ps (cm(d := host s))"

lemma copy_bytes_other: "d \<notin> snd ` set ps \<Longrightarrow> copy_bytes host ps cm d = cm d"
  by (induction host ps cm rule: copy_bytes.induct) auto

lemma copy_bytes_at: "distinct (map snd ps) \<Longrightarrow> (s, d) \<in> set ps \<Longrightarrow> copy_bytes host ps cm d = host s"
  by (induction host ps cm rule: copy_bytes.induct) (auto simp: copy_bytes_other)

text \<open>The order does not matter when no card address occurs twice.\<close>

lemma copy_bytes_mset:
  assumes "mset qs = mset ps" and "distinct (map snd ps)"
  shows "copy_bytes host qs cm = copy_bytes host ps cm"
proof
  fix d
  have s: "set qs = set ps" using assms(1) by (rule mset_eq_setD)
  have q: "distinct (map snd qs)"
    using assms by (metis mset_eq_imp_distinct_iff mset_map)
  show "copy_bytes host qs cm d = copy_bytes host ps cm d"
  proof (cases "d \<in> snd ` set ps")
    case True
    then obtain s where "(s, d) \<in> set ps" by auto
    then show ?thesis using copy_bytes_at [OF q] copy_bytes_at [OF assms(2)] s by metis
  next
    case False
    then show ?thesis using s by (simp add: copy_bytes_other)
  qed
qed

lemma distinct_span: "n \<le> 2 ^ 64 \<Longrightarrow> distinct (span a n)"
  by (auto simp: span_def distinct_map inj_on_def word_of_nat_eq_iff take_bit_nat_eq_self)

text \<open>Data written to consecutive addresses of the card.\<close>

fun card_write :: "u64 \<Rightarrow> u8 list \<Rightarrow> (u64 \<Rightarrow> u8) \<Rightarrow> u64 \<Rightarrow> u8" where
  "card_write a [] cm = cm"
| "card_write a (x # xs) cm = card_write (a + 1) xs (cm(a := x))"

lemma card_write_append: "card_write a (xs @ ys) cm = card_write (a + of_nat (length xs)) ys (card_write a xs cm)"
  by (induction xs arbitrary: a cm) (simp_all add: algebra_simps)

text \<open>Copies whose destinations are consecutive write the source bytes there.\<close>

lemma copy_bytes_write:
  "map snd ps = span a (length ps) \<Longrightarrow> copy_bytes host ps cm = card_write a (map (host \<circ> fst) ps) cm"
proof (induction ps arbitrary: a cm)
  case (Cons p ps)
  have "span a (Suc (length ps)) = a # span (a + 1) (length ps)"
    using span_append [of a 1 "length ps"] by (simp add: span_def)
  with Cons.prems have "snd p = a" "map snd ps = span (a + 1) (length ps)" by simp_all
  then show ?case using Cons.IH [of "a + 1"] by (cases p) simp
qed simp

text \<open>
  The card after the copies \<open>ps\<close>: it has the data at consecutive addresses from \<open>a\<close> on, in whatever
  order the copies are made.
\<close>

definition card_gets :: "(u64 \<Rightarrow> u8) \<Rightarrow> (u64 \<times> u64) list \<Rightarrow> u8 list \<Rightarrow> u64 \<Rightarrow> bool" where
  "card_gets host ps data a \<longleftrightarrow> (\<forall>cm qs. mset qs = mset ps \<longrightarrow> copy_bytes host qs cm = card_write a data cm)"

lemma copies_to_span:
  assumes "map snd ps = span a n" and "n \<le> 2 ^ 64"
  shows "card_gets host ps (map (host \<circ> fst) ps) a"
proof -
  have "length ps = n" using arg_cong [OF assms(1), of length] by simp
  then have w: "copy_bytes host ps cm = card_write a (map (host \<circ> fst) ps) cm" for cm
    using assms(1) by (simp add: copy_bytes_write)
  have "distinct (map snd ps)" using assms by (simp add: distinct_span)
  then show ?thesis by (simp add: card_gets_def copy_bytes_mset w)
qed

section \<open>The memory of the caller\<close>

text \<open>
  The user's memory: \<open>vp\<close> gives the page frame of each virtual page, \<open>pm\<close> the byte at an offset of a
  frame. The kernel pins the frames of the pages it is asked for, in order.
\<close>

definition user_byte :: "(u64 \<times> nat \<Rightarrow> u8) \<Rightarrow> (nat \<Rightarrow> u64) \<Rightarrow> nat \<Rightarrow> u8" where
  "user_byte pm vp v = pm (vp (v div 4096), v mod 4096)"

definition user_space :: "kapi \<Rightarrow> (nat \<Rightarrow> u64) \<Rightarrow> bool" where
  "user_space K vp \<longleftrightarrow> (\<forall>w a n wr rc pgs. k_get_user_pages_fast K w a n wr = (rc, pgs) \<longrightarrow>
     pgs = map (\<lambda>i. vp (unat a div 4096 + i)) [0..<length pgs])"

lemma pinned_slots:
  assumes "user_space K vp" and "pinned K buf wr N pgs" and "unat buf mod 4096 + n \<le> 4096 * N"
  shows "map pm (buffer_slots pgs (unat buf mod 4096) n) = map (user_byte pm vp) [unat buf..<unat buf + n]"
proof (rule nth_equalityI)
  fix k
  assume "k < length (map pm (buffer_slots pgs (unat buf mod 4096) n))"
  then have k: "k < n" by (simp add: buffer_slots_def)
  let ?i = "(unat buf mod 4096 + k) div 4096"
  obtain v where "k_get_user_pages_fast K v buf (int N) wr = (int N, pgs)" "length pgs = N"
    using assms(2) by (auto simp: pinned_def)
  then have p: "pgs = map (\<lambda>i. vp (unat buf div 4096 + i)) [0..<N]"
    using assms(1) unfolding user_space_def by metis
  have "?i < N" using k assms(3) by (simp add: less_mult_imp_div_less)
  then have pg: "pgs ! ?i = vp (unat buf div 4096 + ?i)" by (simp add: p)
  have b: "unat buf + k = 4096 * (unat buf div 4096) + (unat buf mod 4096 + k)" by simp
  have "(4096 * q + r) div 4096 = q + r div 4096" for q r :: nat by simp
  then have "(unat buf + k) div 4096 = unat buf div 4096 + ?i" using b by metis
  moreover have "(unat buf + k) mod 4096 = (unat buf mod 4096 + k) mod 4096" by (simp add: mod_add_left_eq)
  ultimately show "map pm (buffer_slots pgs (unat buf mod 4096) n) ! k = map (user_byte pm vp) [unat buf..<unat buf + n] ! k"
    using k pg by (simp add: buffer_slots_def user_byte_def)
qed (simp add: buffer_slots_def)

text \<open>Copies from the slots of a pinned buffer to consecutive addresses write the caller's bytes.\<close>

lemma card_gets_buffer:
  assumes ps: "map (map_prod tgt id) ps = zip (buffer_slots pgs (unat buf mod 4096) n) (span a n)" and n: "n \<le> 2 ^ 64"
    and pgs: "user_space K vp" "pinned K buf wr N pgs" "unat buf mod 4096 + n \<le> 4096 * N"
  shows "card_gets (\<lambda>b. pm (tgt b)) ps (map (user_byte pm vp) [unat buf..<unat buf + n]) a"
proof -
  have l: "length (buffer_slots pgs (unat buf mod 4096) n) = n" by (simp add: buffer_slots_def)
  have "map snd ps = map snd (map (map_prod tgt id) ps)" by (simp add: comp_def)
  also have "\<dots> = span a n" unfolding ps using l by simp
  finally have dst: "map snd ps = span a n" .
  have "map (tgt \<circ> fst) ps = map fst (map (map_prod tgt id) ps)" by (simp add: comp_def)
  also have "\<dots> = buffer_slots pgs (unat buf mod 4096) n" unfolding ps using l by simp
  finally have s: "map (tgt \<circ> fst) ps = buffer_slots pgs (unat buf mod 4096) n" .
  have "map ((\<lambda>b. pm (tgt b)) \<circ> fst) ps = map pm (map (tgt \<circ> fst) ps)" by simp
  then have "map ((\<lambda>b. pm (tgt b)) \<circ> fst) ps = map pm (buffer_slots pgs (unat buf mod 4096) n)" unfolding s .
  then show ?thesis
    using copies_to_span [OF dst n, of "\<lambda>b. pm (tgt b)"] by (simp add: pinned_slots [OF pgs])
qed

text \<open>Writing a buffer in two pieces, the second where the first ended, is writing it at once.\<close>

lemma write_in_pieces:
  "card_write (a + of_nat m) (map f [v + m..<v + m + n]) (card_write a (map f [v..<v + m]) cm)
    = card_write a (map f [v..<v + m + n]) cm"
proof -
  have "[v..<v + m + n] = [v..<v + m] @ [v + m..<v + m + n]"
    using upt_add_eq_append [of v "v + m" n] by simp
  then show ?thesis by (simp add: card_write_append)
qed

end
