(* ===== verification/DemoKernel.thy ===== *)
theory DemoKernel
  imports FileOps Loading CardMemory
begin

text \<open>
  A concrete kernel that has the documented behaviour the theorems rely on, and a world to start
  in. They show that the hypotheses can hold, and the witnesses run the driver on them: a direct
  mapping between pages and bus addresses, an allocator that hands out addresses by the length of
  the trace, and a device with two base address registers.
\<close>

definition fresh_addr :: "world \<Rightarrow> u64" where
  "fresh_addr w = 4096 * of_nat (Suc (length (trace w)))"

definition demo_segment :: "scatterlist \<Rightarrow> u64 \<times> u32" where
  "demo_segment e = (page_link e * 4096 + ucast (offset e), sg_len e)"

definition demo_mappable :: "scatterlist \<Rightarrow> bool" where
  "demo_mappable e \<longleftrightarrow>
     page_link e < 0x10000000000000 \<and> (ucast (offset e) + ucast (sg_len e) :: u64) \<le> 4096"

definition demo_target :: "u64 \<Rightarrow> u64 \<times> nat" where
  "demo_target b = (b div 4096, unat b mod 4096)"

definition demo_bar_start :: "int \<Rightarrow> u64" where
  "demo_bar_start i = (if i = 0 then 0xF0000000 else 0xF0100000)"

definition demo_bar_len :: "int \<Rightarrow> u64" where
  "demo_bar_len i = (if i = 0 then 0x1000 else 0x10000)"

definition demo_major :: "world \<Rightarrow> int" where
  "demo_major w = 240 + int (length (trace w))"

definition demo_kernel :: kapi where
  "demo_kernel = \<lparr>
     cpu_to_le32 = (\<lambda>x. x),
     le32_to_cpu = (\<lambda>x. x),
     sizeof_scatterlist = 32,
     k_kcalloc = (\<lambda>w n sz. if live w (fresh_addr w) then 0 else fresh_addr w),
     k_sg_init_table = (\<lambda>xs n. xs),
     k_sg_set_page = (\<lambda>e pg len off. e\<lparr>page_link := pg, sg_len := len, offset := off\<rparr>),
     k_get_user_pages_fast = (\<lambda>w a n wr. (n, map (\<lambda>i. drop_bit 12 a + of_nat i) [0..<nat n])),
     k_vmalloc_to_page = drop_bit 12,
     k_PageHighMem = (\<lambda>pg. False),
     k_pci_map_sg = (\<lambda>w dev xs dir. if list_all demo_mappable xs then map demo_segment xs else []),
     k_dma_target = (\<lambda>w dev xs dir. demo_target),
     k_pci_alloc_consistent = (\<lambda>w dev sz.
       if desc_arrs w (fresh_addr w) = None \<and> data_bufs w (fresh_addr w) = None
       then (fresh_addr w, fresh_addr w) else (0, 0)),
     k_coherent_desc = (\<lambda>w i. zero_desc),
     k_coherent_byte = (\<lambda>w i. 0),
     k_ioread32 = (\<lambda>w a. 0),
     k_pci_resource_start = (\<lambda>dev i. demo_bar_start i),
     k_pci_resource_end = (\<lambda>dev i. demo_bar_start i + demo_bar_len i - 1),
     k_pci_resource_len = (\<lambda>dev i. demo_bar_len i),
     k_pci_iomap = (\<lambda>w dev i n. demo_bar_start i + push_bit 40 1),
     k_pci_request_regions = (\<lambda>w dev. 0),
     k_pci_enable_device = (\<lambda>w dev. 0),
     k_pci_set_dma_mask = (\<lambda>w dev bits. 0),
     k_pgprot_noncached = (\<lambda>x. x),
     VM_IO = 0x4000,
     VM_DONTEXPAND = 0x40000,
     VM_DONTDUMP = 0x4000000,
     VM_RESERVED = None,
     k_io_remap_pfn_range = (\<lambda>w a p n. 0),
     k_pci_register_driver = (\<lambda>w. 0),
     k_register_chrdev = (\<lambda>w n. if chrdevs (trace w) (demo_major w) = None then demo_major w else - 16),
     k_class_create = (\<lambda>w. 0x5000),
     k_IS_ERR = (\<lambda>p. p = 0),
     k_device_create = (\<lambda>w mj mi n. 0x6000)\<rparr>"

definition demo_world :: world where
  "demo_world = \<lparr>sgms = Map.empty, page_arrs = Map.empty, sgl_arrs = Map.empty, desc_arrs = Map.empty,
     data_bufs = Map.empty, trace = [], xpcie_dev = 0x7000, bar = [0, 0], engine_regs_h2c = 0x10000,
     engine_regs_c2h = 0x11000, engine_sgdma_regs = 0x14000, sgdma_common_regs = 0x16000,
     major_user = 0, major_h2c = 0, major_c2h = 0, xpcie_class = 0, xpcie_class_user = 0,
     xpcie_class_h2c = 0, xpcie_class_c2h = 0\<rparr>"

section \<open>The demonstration kernel behaves as documented\<close>

lemma demo_kcalloc_ok: "kcalloc_ok demo_kernel"
  by (simp add: kcalloc_ok_def demo_kernel_def)

lemma demo_sg_api_ok: "sg_api_ok demo_kernel"
  by (simp add: sg_api_ok_def demo_kernel_def)

lemma demo_gup_ok: "gup_ok demo_kernel"
  by (auto simp: gup_ok_def demo_kernel_def)

definition demo_pages :: "nat \<Rightarrow> u64" where
  "demo_pages v = of_nat v"

lemma demo_user_space: "user_space demo_kernel demo_pages"
proof -
  have "drop_bit 12 a + of_nat i = (of_nat (unat a div 4096 + i) :: u64)" for a :: u64 and i
  proof -
    have "unat a div 4096 < 2 ^ 64"
      using unsigned_less [of a, where 'a = nat] by (simp add: div_less_dividend less_mult_imp_div_less)
    then have "a div 4096 = of_nat (unat a div 4096)"
      using unat_of_nat_u64 [of "unat a div 4096"] by (simp add: word_unat_eq_iff unat_div)
    then show ?thesis by (simp add: drop_bit_eq_div)
  qed
  then show ?thesis by (auto simp: user_space_def demo_kernel_def demo_pages_def)
qed

lemma demo_byte_order_ok: "byte_order_ok demo_kernel"
  by (simp add: byte_order_ok_def demo_kernel_def)

lemma fresh_addr_aligned: "unat (fresh_addr w) mod 4096 = 0"
proof -
  have "unat (4096 * x) mod 4096 = 0" for x :: u64
    by (simp add: unat_word_ariths mod_mod_cancel)
  then show ?thesis by (simp only: fresh_addr_def)
qed

lemma demo_coherent_ok: "coherent_ok demo_kernel"
  using fresh_addr_aligned by (auto simp: coherent_ok_def demo_kernel_def split: if_splits)

lemma demo_mappable_nat:
  "demo_mappable e \<longleftrightarrow> unat (page_link e) < 2 ^ 52 \<and> unat (offset e) + unat (sg_len e) \<le> 4096"
proof -
  have "unat (ucast (offset e) + ucast (sg_len e) :: u64) = unat (offset e) + unat (sg_len e)"
    using unsigned_less [of "offset e", where 'a = nat] unsigned_less [of "sg_len e", where 'a = nat]
    by (subst unat_add_lem [THEN iffD1]) simp_all
  then show ?thesis by (simp add: demo_mappable_def word_less_nat_alt word_le_nat_alt)
qed

lemma demo_target_segment:
  assumes "demo_mappable e" and "k < unat (sg_len e)"
  shows "demo_target (fst (demo_segment e) + of_nat k) = (page_link e, unat (offset e) + k)"
proof -
  let ?o = "unat (offset e) + k" and ?p = "unat (page_link e)"
  have o: "?o < 4096" and p: "?p < 2 ^ 52" using assms by (auto simp: demo_mappable_nat)
  have "fst (demo_segment e) + of_nat k = of_nat (?p * 4096 + ?o)"
    by (simp add: demo_segment_def add.assoc)
  moreover have u: "unat (of_nat (?p * 4096 + ?o) :: u64) = ?p * 4096 + ?o"
    using o p by (intro unat_of_nat_u64) simp
  ultimately have b: "unat (fst (demo_segment e) + of_nat k) = ?p * 4096 + ?o" by (simp only:)
  have "unat ((fst (demo_segment e) + of_nat k) div 4096) = ?p"
    using o by (simp only: unat_div b) simp
  then show ?thesis
    using o by (simp add: demo_target_def b word_unat_eq_iff)
qed

lemma demo_map_sg_ok: "map_sg_ok demo_kernel 4096"
proof -
  have "map demo_target (concat (map (\<lambda>(a, n). span a (unat n)) (map demo_segment xs))) = sgl_slots xs"
    if "list_all demo_mappable xs" for xs
    using that
  proof (induction xs)
    case (Cons e xs)
    then have "map demo_target (span (fst (demo_segment e)) (unat (sg_len e))) = entry_slots e"
      by (auto simp: span_def entry_slots_def demo_target_segment)
    with Cons show ?case by (simp add: demo_segment_def)
  qed simp
  moreover have "unat (sg_len e) \<le> 4096" if "list_all demo_mappable xs" "e \<in> set xs" for xs e
    using that by (auto simp: list_all_iff demo_mappable_nat)
  ultimately show ?thesis
    by (auto simp: map_sg_ok_def demo_kernel_def demo_segment_def)
qed

lemma demo_kernel_ok: "kernel_ok demo_kernel 4096"
  by (simp add: kernel_ok_def demo_kcalloc_ok demo_sg_api_ok demo_gup_ok demo_map_sg_ok
      demo_byte_order_ok demo_coherent_ok)

lemma demo_chrdev_ok: "chrdev_ok demo_kernel"
  by (simp add: chrdev_ok_def demo_kernel_def)

lemma demo_world_boot: "boot_world demo_world"
  by (simp add: boot_world_def demo_world_def)

section \<open>A write on the demonstration kernel\<close>

lemma demo_mapping:
  "\<exists>w1. h2c_map_buffer demo_kernel 0x1FF8 16 1 demo_world = Inr ((4096, 2), w1)
    \<and> fst (k_pci_alloc_consistent demo_kernel w1 (xpcie_dev demo_world) (word_of_int 2 * sizeof_xdma_desc)) \<noteq> 0"
proof -
  have "(case h2c_map_buffer demo_kernel 0x1FF8 16 1 demo_world of Inl _ \<Rightarrow> False | Inr ((m, n), w1) \<Rightarrow>
     m = 4096 \<and> n = 2
     \<and> fst (k_pci_alloc_consistent demo_kernel w1 (xpcie_dev demo_world) (word_of_int 2 * sizeof_xdma_desc)) \<noteq> 0)"
    by code_simp
  then show ?thesis by (auto split: sum.splits)
qed

lemma demo_user_buffer: "user_buffer 0x1FF8 16"
  by (simp add: user_buffer_def)

lemma demo_null: "sgms demo_world 0 = None" "desc_arrs demo_world 0 = None"
  by (simp_all add: demo_world_def)

end
