(* ===== verification/MapperProps.thy ===== *)
theory MapperProps
  imports DemoKernel
begin

text \<open>
  Properties of the scatter-gather mapper of \<^verbatim>\<open>driver/xpcie.c\<close> (\<open>sg_create_mapper\<close> to
  \<open>sgm_kernel_pages\<close>), each with a witness on the demonstration kernel.
\<close>

section \<open>The scatter-gather mapper\<close>

lemma created_cases:
  assumes "created w max_len m w'"
  obtains (none) es where "m = 0" "w' = logged w es"
  | (mapper) es s ps l where "m \<noteq> 0" "w' = with_mapper (logged w es) m s ps l" "fresh_mapper w m s"
      "sized s ps l" "max_pages s = int (mapper_pages max_len)" "mapped_pages s = 0"
  using assms unfolding created_def by (cases "m = 0") auto

text \<open>
  C12: Creating a mapper either fails with a null pointer and leaves no object behind, or returns a
  pointer that was not in use, to a mapper whose page array and scatter list are large enough for
  every buffer of the requested length, whatever its offset in the first page.
\<close>

theorem create_mapper_outcome:
  assumes "kcalloc_ok K" and "sg_api_ok K" and "unat max_len < 2 ^ 42"
  shows "runs (sg_create_mapper K max_len) w (\<lambda>m w'.
    if m = 0 then \<forall>p. live w' p = live w p
    else \<not> live w m \<and> (\<exists>s ps l. sgms w' m = Some s \<and> page_arrs w' (pages s) = Some ps
      \<and> sgl_arrs w' (sgl s) = Some l \<and> int (length ps) = max_pages s \<and> length l = length ps
      \<and> mapped_pages s = 0 \<and> (\<forall>off < 4096. (off + unat max_len - 1) div 4096 + 1 \<le> length ps)))"
proof (rule runs_weaken [OF sg_create_mapper_runs [OF assms]])
  fix m w'
  assume "created w max_len m w'"
  then show "if m = 0 then \<forall>p. live w' p = live w p
    else \<not> live w m \<and> (\<exists>s ps l. sgms w' m = Some s \<and> page_arrs w' (pages s) = Some ps
      \<and> sgl_arrs w' (sgl s) = Some l \<and> int (length ps) = max_pages s \<and> length l = length ps
      \<and> mapped_pages s = 0 \<and> (\<forall>off < 4096. (off + unat max_len - 1) div 4096 + 1 \<le> length ps))"
  proof (cases rule: created_cases)
    case (none es)
    then show ?thesis by simp
  next
    case (mapper es s ps l)
    then have "length ps = unat max_len div 4096 + 2" "length l = length ps" "int (length ps) = max_pages s"
      by (simp_all add: sized_def mapper_pages_def)
    moreover have "\<not> live w m" using mapper(3) by (simp add: fresh_mapper_def)
    moreover have "\<forall>off < 4096. (off + unat max_len - 1) div 4096 + 1 \<le> unat max_len div 4096 + 2"
      using pages_bound by (auto simp: Suc_le_eq simp flip: One_nat_def)
    ultimately show ?thesis using mapper(1,2,6)
      by (auto simp only: if_False with_mapper_sel intro!: exI [of _ s] exI [of _ ps] exI [of _ l])
  qed
qed

theorem create_mapper_outcome_witness:
  "runs (sg_create_mapper demo_kernel 16) demo_world (\<lambda>m w'.
    if m = 0 then \<forall>p. live w' p = live demo_world p
    else \<not> live demo_world m \<and> (\<exists>s ps l. sgms w' m = Some s \<and> page_arrs w' (pages s) = Some ps
      \<and> sgl_arrs w' (sgl s) = Some l \<and> int (length ps) = max_pages s \<and> length l = length ps
      \<and> mapped_pages s = 0 \<and> (\<forall>off < 4096. (off + unat (16 :: u64) - 1) div 4096 + 1 \<le> length ps)))"
  by (rule create_mapper_outcome [OF demo_kcalloc_ok demo_sg_api_ok]) simp

text \<open>
  Destroying a new mapper undoes its creation: the heap is as it was before.
\<close>

lemma create_destroy:
  assumes "kcalloc_ok K" and "sg_api_ok K" and "unat max_len < 2 ^ 42"
  shows "runs (mbind (sg_create_mapper K max_len) (\<lambda>m. if m = 0 then ret () else sg_destroy_mapper m)) w
    (\<lambda>_ w'. sgms w' = sgms w \<and> page_arrs w' = page_arrs w \<and> sgl_arrs w' = sgl_arrs w)"
  unfolding runs_mbind
proof (rule runs_weaken [OF sg_create_mapper_runs [OF assms]])
  fix m w'
  assume "created w max_len m w'"
  then show "runs (if m = 0 then ret () else sg_destroy_mapper m) w'
    (\<lambda>_ w'. sgms w' = sgms w \<and> page_arrs w' = page_arrs w \<and> sgl_arrs w' = sgl_arrs w)"
  proof (cases rule: created_cases)
    case (mapper es s ps l)
    then show ?thesis by (simp add: sg_destroy_mapper_runs)
  qed simp
qed

text \<open>
  C13: Pinning a user buffer is all or nothing. Either every page of the buffer is pinned and
  recorded, and the entries of the scatter list, none of which leaves its page, describe the bytes
  of the buffer in order; or the result is \<open>-ENOMEM\<close>, nothing is recorded, and every page that was
  pinned has been released. The pages the kernel asks for are those the buffer touches.
\<close>

theorem pin_all_or_nothing:
  assumes "sg_api_ok K" and "gup_ok K"
    and "cnt \<noteq> 0" and "unat start + unat cnt \<le> 2 ^ 64" and "unat cnt \<le> 2 ^ 42"
    and "N = (unat start mod 4096 + unat cnt - 1) div 4096 + 1" and "int N \<le> max_pages s"
    and "sized s ps l" and "mapped_pages s = 0"
  shows "runs (sgm_get_user_pages K m start cnt to_dev) (with_mapper w m s ps l) (\<lambda>rc w'.
    \<exists>es s' ps' l'. w' = with_mapper (logged w es) m s' ps' l' \<and> pages s' = pages s \<and> sgl s' = sgl s \<and>
      (if rc = int N then
         mapped_pages s' = int N \<and> pins es = take N ps' \<and> unpins es = [] \<and> length (pins es) = N
         \<and> sgl_slots (take N l') = buffer_slots (take N ps') (unat start mod 4096) (unat cnt)
         \<and> (\<forall>e \<in> set (take N l'). within_page e)
       else rc = - ENOMEM \<and> mapped_pages s' = 0 \<and> pins es = unpins es))"
proof (rule runs_weaken [OF sgm_get_user_pages_runs [OF assms]])
  fix rc w'
  assume o: "pin_outcome K w m s start cnt (to_dev = 0) N rc w'"
  then obtain pgs ps' l' where oc: "if rc = int N then
        pinned K start (to_dev = 0) N pgs \<and> take N ps' = pgs
        \<and> filled pgs (unat start mod 4096) N (unat cnt) l'
        \<and> w' = with_mapper (logged w (Mem (E_get_user_pages start (int N) (to_dev = 0) pgs)
            # map (\<lambda>pg. Mem (E_flush_dcache_page pg)) pgs)) m (s\<lparr>mapped_pages := int N\<rparr>) ps' l'
      else
        rc = - ENOMEM \<and> length pgs < N
        \<and> w' = with_mapper (logged w (Mem (E_get_user_pages start (int N) (to_dev = 0) pgs)
            # map (\<lambda>pg. Mem (E_put_page pg)) pgs)) m (s\<lparr>mapped_pages := 0\<rparr>) ps' l'"
    unfolding pin_outcome_def by blast
  let ?es = "if rc = int N then Mem (E_get_user_pages start (int N) (to_dev = 0) pgs)
            # map (\<lambda>pg. Mem (E_flush_dcache_page pg)) pgs
     else Mem (E_get_user_pages start (int N) (to_dev = 0) pgs) # map (\<lambda>pg. Mem (E_put_page pg)) pgs"
  let ?s = "s\<lparr>mapped_pages := if rc = int N then int N else 0\<rparr>"
  show "\<exists>es s' ps' l'. w' = with_mapper (logged w es) m s' ps' l' \<and> pages s' = pages s \<and> sgl s' = sgl s \<and>
      (if rc = int N then
         mapped_pages s' = int N \<and> pins es = take N ps' \<and> unpins es = [] \<and> length (pins es) = N
         \<and> sgl_slots (take N l') = buffer_slots (take N ps') (unat start mod 4096) (unat cnt)
         \<and> (\<forall>e \<in> set (take N l'). within_page e)
       else rc = - ENOMEM \<and> mapped_pages s' = 0 \<and> pins es = unpins es)"
    using oc by (intro exI [of _ ?es] exI [of _ ?s] exI [of _ ps'] exI [of _ l'])
      (simp add: filled_def pinned_def split: if_splits)
qed

definition demo_mapper :: sg_mapping_t where
  "demo_mapper = \<lparr>sgl = 0x3000, pages = 0x2000, max_pages = 3, mapped_pages = 0\<rparr>"

theorem pin_all_or_nothing_witness:
  "\<exists>rc w'. sgm_get_user_pages demo_kernel 0x1000 0x1FF8 16 1
     (with_mapper demo_world 0x1000 demo_mapper [0, 0, 0] [zero_sg, zero_sg, zero_sg]) = Inr (rc, w')
     \<and> (rc = 2 \<or> rc = - ENOMEM)"
proof -
  have "runs (sgm_get_user_pages demo_kernel 0x1000 0x1FF8 16 1)
     (with_mapper demo_world 0x1000 demo_mapper [0, 0, 0] [zero_sg, zero_sg, zero_sg]) (\<lambda>rc w'. rc = 2 \<or> rc = - ENOMEM)"
    by (rule runs_weaken, rule pin_all_or_nothing [OF demo_sg_api_ok demo_gup_ok, of 16 "0x1FF8" 2])
      (auto simp: demo_mapper_def sized_def split: if_splits)
  then show ?thesis by (simp add: runs_iff)
qed

text \<open>
  Releasing the pages of a mapper releases each recorded page once, marks them dirty first
  exactly when the device may have written them, and leaves none recorded.
\<close>

lemma put_pages:
  assumes "0 \<le> mapped_pages s" and "nat (mapped_pages s) \<le> length ps"
  shows "runs (sgm_put_user_pages m to_dev) (with_mapper w m s ps l) (\<lambda>rc w'. rc = 0 \<and> (\<exists>es.
     w' = with_mapper (logged w es) m (s\<lparr>mapped_pages := 0\<rparr>) ps l
     \<and> unpins es = take (nat (mapped_pages s)) ps \<and> pins es = []
     \<and> dirtied es = (if to_dev = 0 then take (nat (mapped_pages s)) ps else [])))"
  unfolding sgm_put_user_pages_runs [OF refl assms(2)]
  by (intro conjI refl exI [of _ "put_events (to_dev = 0) (take (nat (mapped_pages s)) ps)"]) simp_all

text \<open>
  Collecting the pages of a vmalloc()ed buffer: if every page has a page structure, the result
  is their number and the scatter list describes the bytes of the buffer in order; otherwise the
  result is \<open>-ENOMEM\<close> and no page is recorded.
\<close>

lemma kernel_pages:
  assumes "sg_api_ok K"
    and "cnt \<noteq> 0" and "unat start + unat cnt < 2 ^ 64" and "unat cnt \<le> 2 ^ 42"
    and "N = (unat start mod 4096 + unat cnt - 1) div 4096 + 1" and "int N \<le> max_pages s"
    and "sized s ps l" and "mapped_pages s = 0"
    and "\<And>k. k < N \<Longrightarrow> \<not> k_PageHighMem K (vm_page K start k)"
  shows "runs (sgm_kernel_pages K m start cnt to_user) (with_mapper w m s ps l) (\<lambda>rc w'.
    \<exists>es s' ps' l'. w' = with_mapper (logged w es) m s' ps' l' \<and> pages s' = pages s \<and> sgl s' = sgl s \<and>
      (if \<exists>k < N. vm_page K start k = 0 then rc = - ENOMEM \<and> mapped_pages s' = 0
       else rc = int N \<and> mapped_pages s' = int N \<and> take N ps' = map (vm_page K start) [0..<N]
         \<and> sgl_slots (take N l') = buffer_slots (take N ps') (unat start mod 4096) (unat cnt)))"
proof (rule runs_weaken [OF sgm_kernel_pages_runs [OF assms]])
  fix rc w'
  assume o: "kernel_outcome K w m s start cnt N rc w'"
  let ?pgs = "map (vm_page K start) [0..<N]"
  let ?ev = "map (\<lambda>pg. Mem (E_flush_dcache_page pg)) ?pgs"
  have z: "(\<exists>k < N. vm_page K start k = 0) = (0 \<in> set ?pgs)" by (auto simp: image_iff)
  show "\<exists>es s' ps' l'. w' = with_mapper (logged w es) m s' ps' l' \<and> pages s' = pages s \<and> sgl s' = sgl s \<and>
      (if \<exists>k < N. vm_page K start k = 0 then rc = - ENOMEM \<and> mapped_pages s' = 0
       else rc = int N \<and> mapped_pages s' = int N \<and> take N ps' = ?pgs
         \<and> sgl_slots (take N l') = buffer_slots (take N ps') (unat start mod 4096) (unat cnt))"
  proof (cases "0 \<in> set ?pgs")
    case True
    then obtain ps' l' where "rc = - ENOMEM" "w' = with_mapper w m (s\<lparr>mapped_pages := 0\<rparr>) ps' l'"
      using o unfolding kernel_outcome_def Let_def by auto
    then show ?thesis unfolding z if_P [OF True]
      by (intro exI [of _ "[]"] exI [of _ "s\<lparr>mapped_pages := 0\<rparr>"] exI [of _ ps'] exI [of _ l']) simp
  next
    case False
    then obtain ps' l' where r: "rc = int N" "take N ps' = ?pgs" "filled ?pgs (unat start mod 4096) N (unat cnt) l'"
      "w' = with_mapper (logged w ?ev) m (s\<lparr>mapped_pages := int N\<rparr>) ps' l'"
      using o unfolding kernel_outcome_def Let_def by (metis (lifting) False)
    show ?thesis unfolding z if_not_P [OF False]
      by (rule exI [of _ ?ev], rule exI [of _ "s\<lparr>mapped_pages := int N\<rparr>"], rule exI [of _ ps'], rule exI [of _ l'])
        (use r in \<open>simp add: filled_def\<close>)
  qed
qed

end
