(* ===== verification/DescriptorProps.thy ===== *)
theory DescriptorProps
  imports DemoKernel
begin

text \<open>
  Properties of the descriptors of \<^verbatim>\<open>driver/xpcie.c\<close>: one descriptor
  (\<open>xdma_desc_set\<close>, \<open>xdma_desc_control\<close>, \<open>xdma_desc_adjacent\<close>), the array
  \<open>xdma_desc_alloc\<close> returns, the list \<open>transfer_build\<close> fills in and \<open>transfer_terminate\<close> ends.
  Each has a witness on the demonstration kernel.
\<close>

section \<open>Descriptors\<close>

text \<open>
  C6: Building the descriptors of a mapped scatter list, for a transfer whose end point address
  advances, merges adjacent entries as it likes, but the descriptors it fills in, carried out in
  order, copy exactly the bytes of the list between their bus addresses and consecutive end point
  addresses, in the direction of the transfer.
\<close>

theorem build_copies_list:
  assumes "byte_order_ok K" and "0 < n" and "n \<le> length l" and "n \<le> length ds"
    and "\<And>i. i < n \<Longrightarrow> unat (dma_length (l ! i)) \<le> M" and "258047 + M < 2 ^ 32"
    and "advances non_incr from_user"
  shows "runs (build_descs K l (int n) ep to_dev non_incr force_new from_user) ds
    (\<lambda>last_desc ds'. \<exists>j < n. last_desc = int j \<and> length ds' = length ds
       \<and> plan K (take (Suc j) ds')
         = directed to_dev (dma_bytes (take n l)) (span ep (length (dma_bytes (take n l)))))"
  by (rule runs_weaken [OF build_descs_runs [OF assms(1-6) order.refl]])
    (use assms(7) in \<open>auto simp: written_def\<close>)

definition demo_list :: "scatterlist list" where
  "demo_list = [zero_sg\<lparr>dma_address := 0x1FF8, dma_length := 8\<rparr>, zero_sg\<lparr>dma_address := 0x5000, dma_length := 8\<rparr>]"

lemma demo_list_facts: "length demo_list = 2" "\<And>i. i < 2 \<Longrightarrow> unat (dma_length (demo_list ! i)) \<le> 8"
  by (auto simp: demo_list_def less_2_cases_iff)

theorem build_copies_list_witness:
  "runs (build_descs demo_kernel demo_list (int 2) 0x100 1 0 0 1) [zero_desc, zero_desc]
    (\<lambda>last_desc ds'. \<exists>j < 2. last_desc = int j \<and> length ds' = length [zero_desc, zero_desc]
       \<and> plan demo_kernel (take (Suc j) ds')
         = directed 1 (dma_bytes (take 2 demo_list)) (span 0x100 (length (dma_bytes (take 2 demo_list)))))"
  by (rule build_copies_list [OF demo_byte_order_ok, where M = 8])
    (simp_all add: demo_list_facts advances_def)

text \<open>
  In the mode with a fixed end point address every descriptor has that address, and together
  the descriptors still cover the bus addresses of the list in order.
\<close>

lemma build_fixed_address:
  assumes "byte_order_ok K" and "0 < n" and "n \<le> length l" and "n \<le> length ds"
    and "\<And>i. i < n \<Longrightarrow> unat (dma_length (l ! i)) \<le> M" and "258047 + M < 2 ^ 32"
    and "\<not> advances non_incr from_user"
  shows "runs (build_descs K l (int n) ep to_dev non_incr force_new from_user) ds
    (\<lambda>last_desc ds'. \<exists>j < n. last_desc = int j \<and> (\<forall>k \<le> j. ep_of K to_dev (ds' ! k) = ep)
       \<and> concat (map (\<lambda>d. span (rc_addr K to_dev d) (desc_len K d)) (take (Suc j) ds')) = dma_bytes (take n l))"
  by (rule runs_weaken [OF build_descs_runs [OF assms(1-6) order.refl]])
    (use assms(7) in \<open>auto simp: written_def less_Suc_eq_le\<close>)

text \<open>
  C7: If no entry of the list is longer than a page, no descriptor is longer than
  \<open>XDMA_DESC_MAX_BYTES\<close>.
\<close>

theorem build_descriptor_bound:
  assumes "byte_order_ok K" and "0 < n" and "n \<le> length l" and "n \<le> length ds"
    and "\<And>i. i < n \<Longrightarrow> unat (dma_length (l ! i)) \<le> unat PAGE_SIZE"
  shows "runs (build_descs K l (int n) ep to_dev non_incr force_new from_user) ds
    (\<lambda>last_desc ds'. \<exists>j < n. last_desc = int j \<and> (\<forall>k \<le> j. desc_len K (ds' ! k) \<le> unat XDMA_DESC_MAX_BYTES))"
  by (rule runs_weaken [OF build_descs_runs [OF assms(1-5), where bound = "unat XDMA_DESC_MAX_BYTES"]])
    (auto simp: written_def less_Suc_eq_le XDMA_DESC_MAX_BYTES_def)

theorem build_descriptor_bound_witness:
  "runs (build_descs demo_kernel demo_list (int 2) 0x100 1 0 0 1) [zero_desc, zero_desc]
    (\<lambda>last_desc ds'. \<exists>j < 2. last_desc = int j
       \<and> (\<forall>k \<le> j. desc_len demo_kernel (ds' ! k) \<le> unat XDMA_DESC_MAX_BYTES))"
  by (rule build_descriptor_bound [OF demo_byte_order_ok])
    (use demo_list_facts in \<open>force+\<close>)



text \<open>A world with a mapped scatter list of two entries, for the witnesses below.\<close>

definition listed_world :: world where
  "listed_world = demo_world\<lparr>sgms := [0x1000 \<mapsto> \<lparr>sgl = 0x3000, pages = 0x2000, max_pages = 2, mapped_pages = 2\<rparr>],
     sgl_arrs := [0x3000 \<mapsto> demo_list]\<rparr>"

lemma listed_world_facts:
  "sgms listed_world 0x1000 = Some \<lparr>sgl = 0x3000, pages = 0x2000, max_pages = 2, mapped_pages = 2\<rparr>"
  "sgl_arrs listed_world 0x3000 = Some demo_list"
  "k_pci_alloc_consistent demo_kernel listed_world (xpcie_dev listed_world)
     (word_of_int (int 2) * sizeof_xdma_desc) = (0x1000, 0x1000)"
  by (simp_all add: listed_world_def demo_world_def demo_kernel_def fresh_addr_def)

lemma demo_list_set: "\<forall>e \<in> set (take 2 demo_list). unat (dma_length e) \<le> 8"
  by (simp add: demo_list_def)



text \<open>
  C9: The adjacency counts of the finished list are safe to prefetch by: the burst that a descriptor
  announces, the next one and \<open>adj_field\<close> more, stays inside the list, has at most 16 descriptors
  and does not cross a 4 KiB boundary.
\<close>

theorem bursts_stay_inside:
  assumes "byte_order_ok K" and "coherent_ok K" and "0 < n" and "n \<le> length l"
    and "sgms w m = Some s" and "sgl_arrs w (sgl s) = Some l"
    and "\<forall>e \<in> set (take n l). unat (dma_length e) \<le> M" and "258047 + M < 2 ^ 32"
    and "fst (k_pci_alloc_consistent K w (xpcie_dev w) (word_of_int (int n) * sizeof_xdma_desc)) \<noteq> 0"
  shows "runs (h2c_build K m (int n) ep to_dev non_incr force_new from_user) w (\<lambda>t w'. \<exists>ds.
    desc_arrs w' (desc_virt t) = Some ds
    \<and> (\<forall>k. int (Suc k) < desc_num t \<longrightarrow>
         int (k + 1 + adj_field K (ds ! k)) < desc_num t \<and> adj_field K (ds ! k) \<le> 15
         \<and> unat (next_addr K (ds ! k)) mod 4096 + 32 * (1 + adj_field K (ds ! k)) \<le> 4096))"
proof -
  obtain virt bus where al: "k_pci_alloc_consistent K w (xpcie_dev w) (word_of_int (int n) * sizeof_xdma_desc) = (virt, bus)"
    by (cases "k_pci_alloc_consistent K w (xpcie_dev w) (word_of_int (int n) * sizeof_xdma_desc)")
  with assms(2,9) have v: "virt \<noteq> 0" "unat bus mod 4096 = 0" unfolding coherent_ok_def by auto
  have bus: "unat bus mod 32 = 0"
    using v(2) mod_mod_cancel [of 32 4096 "unat bus"] by simp
  show ?thesis
    by (rule runs_weaken [OF h2c_build_runs [OF assms(1,3-8) al v(1)]])
      (use ready_burst_in_list ready_burst_page [OF _ _ bus] in \<open>fastforce simp: built_def\<close>)
qed

theorem bursts_stay_inside_witness:
  "runs (h2c_build demo_kernel 0x1000 (int 2) 0x100 1 0 0 1) listed_world (\<lambda>t w'. \<exists>ds.
    desc_arrs w' (desc_virt t) = Some ds
    \<and> (\<forall>k. int (Suc k) < desc_num t \<longrightarrow>
         int (k + 1 + adj_field demo_kernel (ds ! k)) < desc_num t \<and> adj_field demo_kernel (ds ! k) \<le> 15
         \<and> unat (next_addr demo_kernel (ds ! k)) mod 4096 + 32 * (1 + adj_field demo_kernel (ds ! k)) \<le> 4096))"
  by (rule bursts_stay_inside [OF demo_byte_order_ok demo_coherent_ok _ _ listed_world_facts(1) _ demo_list_set])
    (simp_all add: demo_list_def listed_world_facts [simplified])

text \<open>
  C10: Allocating \<open>n\<close> descriptors yields an array whose elements are linked in order by bus
  address, describe no bytes, carry the magic number and the number of adjacent descriptors after
  the next, capped at 15; the last one has no successor.
\<close>

theorem alloc_chains:
  assumes "byte_order_ok K" and "0 < n"
    and "k_pci_alloc_consistent K w dev (word_of_int (int n) * sizeof_xdma_desc) = (virt, bus)" and "virt \<noteq> 0"
  shows "runs (xdma_desc_alloc K dev (int n) want_last) w (\<lambda>r w'.
    r = (virt, bus, if want_last then Some (virt + word_of_int (int n - 1) * sizeof_xdma_desc) else None)
    \<and> (\<exists>ds. desc_arrs w' virt = Some ds \<and> length ds = n
         \<and> (\<forall>k < n. desc_magic K (ds ! k) \<and> desc_len K (ds ! k) = 0 \<and> ctl_byte K (ds ! k) = 0
              \<and> next_addr K (ds ! k) = (if Suc k < n then bus + of_nat (Suc k) * sizeof_xdma_desc else 0)
              \<and> adj_field K (ds ! k) = min 15 (n - Suc k - 1))))"
  using xdma_desc_alloc_runs [OF assms(2-4)]
proof (rule runs_weaken)
  fix r w'
  assume a: "r = (virt, bus, if want_last then Some (virt + word_of_int (int n - 1) * sizeof_xdma_desc) else None)
    \<and> (\<exists>raw ds. chained K bus (n - 1) raw ds \<and> desc_arrs w' virt = Some ds)"
  then obtain raw ds where c: "chained K bus (n - 1) raw ds" and d: "desc_arrs w' virt = Some ds" by blast
  have "desc_magic K (ds ! k) \<and> desc_len K (ds ! k) = 0 \<and> ctl_byte K (ds ! k) = 0
      \<and> next_addr K (ds ! k) = (if Suc k < n then bus + of_nat (Suc k) * sizeof_xdma_desc else 0)
      \<and> adj_field K (ds ! k) = min 15 (n - Suc k - 1)" if "k < n" for k
    using chained_reads [OF assms(1) c, of k] that by auto
  then show "r = (virt, bus, if want_last then Some (virt + word_of_int (int n - 1) * sizeof_xdma_desc) else None)
    \<and> (\<exists>ds. desc_arrs w' virt = Some ds \<and> length ds = n
         \<and> (\<forall>k < n. desc_magic K (ds ! k) \<and> desc_len K (ds ! k) = 0 \<and> ctl_byte K (ds ! k) = 0
              \<and> next_addr K (ds ! k) = (if Suc k < n then bus + of_nat (Suc k) * sizeof_xdma_desc else 0)
              \<and> adj_field K (ds ! k) = min 15 (n - Suc k - 1)))"
    using a c d assms(2) by (auto simp: chained_def)
qed

theorem alloc_chains_witness:
  "\<exists>ds w'. xdma_desc_alloc demo_kernel 0x7000 (int 3) False demo_world = Inr ((0x1000, 0x1000, None), w')
    \<and> desc_arrs w' 0x1000 = Some ds \<and> length ds = 3"
proof -
  have "k_pci_alloc_consistent demo_kernel demo_world 0x7000 (word_of_int (int 3) * sizeof_xdma_desc) = (0x1000, 0x1000)"
    by (simp add: demo_kernel_def demo_world_def fresh_addr_def)
  from alloc_chains [OF demo_byte_order_ok _ this, of False] show ?thesis
    by (auto simp: runs_iff)
qed

text \<open>
  Filling a descriptor in and reading it back as the device does gives the two 64-bit
  addresses, ordered by the direction, and the length; the control word and the link stay.
\<close>

lemma desc_set_roundtrip:
  assumes "byte_order_ok K"
  shows "src_addr K (xdma_desc_set K rc ep len to_dev d) = (if to_dev \<noteq> 0 then rc else ep)
    \<and> dst_addr K (xdma_desc_set K rc ep len to_dev d) = (if to_dev \<noteq> 0 then ep else rc)
    \<and> desc_len K (xdma_desc_set K rc ep len to_dev d) = unat len
    \<and> next_addr K (xdma_desc_set K rc ep len to_dev d) = next_addr K d
    \<and> control (xdma_desc_set K rc ep len to_dev d) = control d"
  by (simp add: xdma_desc_set_reads [OF assms])

text \<open>
  Terminating the list marks the descriptor as the last one whatever it was before: no
  successor, no adjacent descriptors, the magic number, and the bits that stop the engine, raise
  the interrupt and end the packet; what it copies does not change.
\<close>

lemma terminate_marks_last:
  assumes "byte_order_ok K" and "desc_arrs w (desc_virt t) = Some ds" and "j < length ds"
  shows "runs (transfer_terminate K t (int j)) w (\<lambda>_ w'. \<exists>d.
    desc_arrs w' (desc_virt t) = Some (ds[j := d]) \<and> next_addr K d = 0 \<and> adj_field K d = 0
    \<and> desc_magic K d \<and> ctl_byte K d = XDMA_DESC_STOPPED OR XDMA_DESC_EOP OR XDMA_DESC_COMPLETED
    \<and> desc_copies K d = desc_copies K (ds ! j))"
  using assms(2,3) terminated_reads [OF assms(1), of "ds ! j"] terminated_adj [OF assms(1), of "ds ! j"]
    same_copy_reads(1) [OF terminated_copy, of K "ds ! j"]
  by (simp add: runs_transfer_terminate stop_bits_def) blast

text \<open>
  Setting the control field of a descriptor keeps its magic number and its adjacency count and
  replaces exactly the low byte; a field with other bits set is refused by the \<open>BUG_ON\<close>.
\<close>

lemma desc_control_byte:
  assumes "byte_order_ok K"
  shows "case xdma_desc_control K f d of
      Inl c \<Rightarrow> c = Bug_On \<and> f AND NOT LS_BYTE_MASK \<noteq> 0
    | Inr d' \<Rightarrow> ctl_byte K d' = f \<and> f AND NOT LS_BYTE_MASK = 0 \<and> desc_magic K d' = desc_magic K d
        \<and> adj_field K d' = adj_field K d \<and> next_addr K d' = next_addr K d \<and> desc_copies K d' = desc_copies K d"
  using assms by (auto simp: xdma_desc_control_def merge_control_reads mark.next_same mark.copies)

text \<open>
  C11: The number of adjacent descriptors stored in a descriptor is the largest one that is at most
  15, at most one less than the number of descriptors that follow, and does not lead past the 4 KiB
  page of the next descriptor; without a following descriptor it is 0.
\<close>

theorem adjacent_count:
  assumes "byte_order_ok K" and "unat (next_addr K d) mod 32 = 0"
  shows "adj_field K (xdma_desc_adjacent K (int n) d)
    = (if n = 0 then 0 else min (min (n - 1) 15) ((4096 - unat (next_addr K d) mod 4096) div 32 - 1))"
proof (cases "n = 0")
  case True
  then show ?thesis by (simp add: xdma_desc_adjacent_reads [OF assms(1)] extra_adj_of_def)
next
  case False
  have nat: "nat (min (min (int n - 1) 15) (int b)) = min (min (n - 1) 15) b" for b
    using False by (auto simp: min_def)
  show ?thesis
    using False by (simp add: xdma_desc_adjacent_reads [OF assms(1)] extra_adj_of_eq nat adjacent_room(1) [OF assms(2)])
qed

theorem adjacent_count_witness:
  "adj_field demo_kernel (xdma_desc_adjacent demo_kernel (int 20) zero_desc) = 15"
  using adjacent_count [OF demo_byte_order_ok, of zero_desc 20]
  by (simp add: zero_desc_def next_addr_def rd_def demo_kernel_def)

end
