(* ===== verification/Coalesce.thy ===== *)
theory Coalesce
  imports TransferBuild
begin

text \<open>
  A reference definition of what \<open>transfer_build\<close> computes: the segments of the mapped list are
  merged into contiguous blocks, each block is given its address on the card, and the blocks are
  stored in the first descriptors. The index loop with its eight variables is equivalent to it.
\<close>

section \<open>Blocks\<close>

definition segments :: "scatterlist list \<Rightarrow> (u64 \<times> u32) list" where
  "segments l = map (\<lambda>e. (dma_address e, dma_length e)) l"

text \<open>
  The current block starts at \<open>a\<close> and has \<open>c\<close> bytes before the first segment of the list. A
  block ends where the next segment is not contiguous or where it has grown beyond the limit, and
  after every segment if \<open>every\<close> is set.
\<close>

fun coalesce :: "bool \<Rightarrow> u64 \<Rightarrow> u32 \<Rightarrow> (u64 \<times> u32) list \<Rightarrow> (u64 \<times> u32) list" where
  "coalesce every a c [] = []"
| "coalesce every a c [(x, n)] = [(a, c + n)]"
| "coalesce every a c ((x, n) # (y, m) # r) =
     (if every \<or> y \<noteq> x + ucast n \<or> ucast (c + n) > XDMA_DESC_MAX_BYTES - PAGE_SIZE
      then (a, c + n) # coalesce every y 0 ((y, m) # r)
      else coalesce every a (c + n) ((y, m) # r))"

definition blocks :: "bool \<Rightarrow> (u64 \<times> u32) list \<Rightarrow> (u64 \<times> u32) list" where
  "blocks every segs = coalesce every (fst (hd segs)) 0 segs"

text \<open>Card addresses: each block behind the one before, or all at the same address.\<close>

fun placed :: "bool \<Rightarrow> u64 \<Rightarrow> (u64 \<times> u32) list \<Rightarrow> (u64 \<times> u64 \<times> u32) list" where
  "placed adv ep [] = []"
| "placed adv ep ((a, n) # bs) = (a, ep, n) # placed adv (if adv then ep + ucast n else ep) bs"

fun store_blocks :: "kapi \<Rightarrow> int \<Rightarrow> nat \<Rightarrow> (u64 \<times> u64 \<times> u32) list \<Rightarrow> xdma_desc list \<Rightarrow> xdma_desc list" where
  "store_blocks K to_dev j [] ds = ds"
| "store_blocks K to_dev j ((a, ep, n) # bs) ds =
     store_blocks K to_dev (Suc j) bs (ds[j := xdma_desc_set K a ep n to_dev (ds ! j)])"

lemma length_store_blocks [simp]: "length (store_blocks K to_dev j bs ds) = length ds"
  by (induction K to_dev j bs ds rule: store_blocks.induct) auto

lemma length_placed [simp]: "length (placed adv ep bs) = length bs"
  by (induction adv ep bs rule: placed.induct) auto

lemma coalesce_nonempty: "segs \<noteq> [] \<Longrightarrow> coalesce every a c segs \<noteq> []"
  by (induction every a c segs rule: coalesce.induct) auto

lemma length_coalesce: "length (coalesce every a c segs) \<le> length segs"
  by (induction every a c segs rule: coalesce.induct) auto

text \<open>Blocks cover the bytes of the segments, none is empty before its first segment.\<close>

lemma length_blocks: "segs \<noteq> [] \<Longrightarrow> 0 < length (blocks every segs) \<and> length (blocks every segs) \<le> length segs"
  by (simp add: blocks_def coalesce_nonempty length_coalesce)

section \<open>The loop computes the blocks\<close>

definition build_rest ::
  "kapi \<Rightarrow> scatterlist list \<Rightarrow> nat \<Rightarrow> int \<Rightarrow> build_vars \<Rightarrow> (xdma_desc list, int) prog" where
  "build_rest K sg n to_dev v =
     mbind (arr_read sg (n - 1)) (\<lambda>e.
     mthen (bug_on (int (desc_idx v) > int n))
     (mthen (arr_upd (desc_idx v)
        (xdma_desc_set K (cont_addr v) (ep_addr v) (cont_len v + dma_length e) to_dev))
     (ret (int (desc_idx v)))))"

lemma build_loop_blocks:
  assumes "i < n" and "n \<le> length l" and "n \<le> length ds"
    and "addr v = dma_address (l ! i)" and "desc_idx v \<le> i"
    and "bs = coalesce (every_entry force_new from_user) (cont_addr v) (cont_len v) (segments (drop i (take n l)))"
  shows "runs (mbind (foldM (build_step K l to_dev non_incr force_new from_user) [i..<n - 1] v)
      (build_rest K l n to_dev)) ds
    (\<lambda>last_desc ds'. last_desc = int (desc_idx v + length bs - 1)
      \<and> ds' = store_blocks K to_dev (desc_idx v) (placed (advances non_incr from_user) (ep_addr v) bs) ds)"
  using assms
proof (induction "n - 1 - i" arbitrary: i v ds bs)
  case 0
  then have i: "i = n - 1" by simp
  then have d: "drop i (take n l) = [l ! i]"
    using 0 by (metis Cons_nth_drop_Suc diff_Suc_1 drop_all le_refl length_take less_Suc_eq_le min.absorb2 not_less_eq
        nth_take Suc_diff_1 gr_implies_not0 bot_nat_0.not_eq_extremum)
  have b: "bs = [(cont_addr v, cont_len v + dma_length (l ! i))]"
    using "0.prems"(6) unfolding d by (simp add: segments_def)
  show ?case using "0.prems"(1-5) i unfolding b
    by (simp add: build_rest_def)
next
  case (Suc k)
  then have i: "Suc i < n" by simp
  have d: "drop i (take n l) = l ! i # l ! Suc i # drop (Suc (Suc i)) (take n l)"
    using i Suc.prems(2) by (simp add: Cons_nth_drop_Suc [symmetric])
  have d': "drop (Suc i) (take n l) = l ! Suc i # drop (Suc (Suc i)) (take n l)"
    using i Suc.prems(2) by (simp add: Cons_nth_drop_Suc [symmetric])
  have up: "[i..<n - 1] = i # [Suc i..<n - 1]" using i by (simp add: upt_conv_Cons)
  let ?E = "every_entry force_new from_user" and ?A = "advances non_incr from_user"
  let ?c = "cont_len v + dma_length (l ! i)" and ?nxt = "dma_address (l ! Suc i)"
  let ?rest = "segments (drop (Suc i) (take n l))"
  let ?nd = "ends_block l i ?E v"
  let ?step = "build_step K l to_dev non_incr force_new from_user"
  let ?tail = "\<lambda>v. mbind (foldM ?step [Suc i..<n - 1] v) (build_rest K l n to_dev)"
  have bs: "bs = (if ?nd then (cont_addr v, ?c) # coalesce ?E ?nxt 0 ?rest else coalesce ?E (cont_addr v) ?c ?rest)"
    using Suc.prems(4,6) unfolding d d' by (simp add: segments_def ends_block_def)
  have ne: "?rest \<noteq> []" unfolding d' by (simp add: segments_def)
  have IH: "runs (?tail v1) ds1 (\<lambda>last_desc ds'. last_desc = int (desc_idx v1 + length bs1 - 1)
      \<and> ds' = store_blocks K to_dev (desc_idx v1) (placed ?A (ep_addr v1) bs1) ds1)"
    if "addr v1 = ?nxt" "desc_idx v1 \<le> Suc i" "length ds1 = length ds" "bs1 = coalesce ?E (cont_addr v1) (cont_len v1) ?rest" for v1 ds1 bs1
    using Suc.hyps(2) that i Suc.prems(2,3) by (intro Suc.hyps(1)) auto
  show ?case
    unfolding up foldM.simps mbind_assoc runs_mbind [of "?step i v"]
  proof (rule runs_build_step, goal_cases)
    case (3 mx)
    let ?b1 = "coalesce ?E ?nxt 0 ?rest"
    have b: "bs = (cont_addr v, ?c) # ?b1" using bs 3 by simp
    have "0 < length ?b1" using coalesce_nonempty [OF ne] by simp
    then show ?case
      unfolding b
      by (intro runs_weaken [OF IH [of _ _ ?b1]]) (use Suc.prems(5) in auto)
  next
    case 4
    have b: "bs = coalesce ?E (cont_addr v) ?c ?rest" using bs 4 by (simp only: if_False)
    show ?case
      by (rule runs_weaken [OF IH [of _ _ bs]]) (use Suc.prems(5) b in auto)
  qed (use i Suc.prems(2,3,5) in auto)
qed

lemma build_descs_blocks:
  assumes "0 < n" and "n \<le> length l" and "n \<le> length ds"
    and "bs = blocks (every_entry force_new from_user) (segments (take n l))"
  shows "runs (build_descs K l (int n) ep to_dev non_incr force_new from_user) ds
    (\<lambda>last_desc ds'. last_desc = int (length bs - 1)
      \<and> ds' = store_blocks K to_dev 0 (placed (advances non_incr from_user) ep bs) ds)"
proof -
  let ?v0 = "\<lparr>cont_addr = dma_address (l ! 0), addr = dma_address (l ! 0), cont_len = 0, cont_max_len = 0,
    ep_addr = ep, desc_idx = 0\<rparr>"
  have "l \<noteq> []" using assms by auto
  then have hd: "fst (hd (segments (take n l))) = dma_address (l ! 0)"
    using assms(1) by (simp add: segments_def hd_map hd_conv_nth)
  have e: "build_descs K l (int n) ep to_dev non_incr force_new from_user =
      mbind (arr_read l 0) (\<lambda>e0. mbind (foldM (build_step K l to_dev non_incr force_new from_user) [0..<n - 1]
        \<lparr>cont_addr = dma_address e0, addr = dma_address e0, cont_len = 0, cont_max_len = 0,
          ep_addr = ep, desc_idx = 0\<rparr>) (build_rest K l n to_dev))"
    using assms(1) by (simp add: build_descs_def build_rest_def [abs_def] nat_diff_distrib)
  have "runs (mbind (foldM (build_step K l to_dev non_incr force_new from_user) [0..<n - 1] ?v0) (build_rest K l n to_dev)) ds
    (\<lambda>last_desc ds'. last_desc = int (desc_idx ?v0 + length bs - 1)
      \<and> ds' = store_blocks K to_dev (desc_idx ?v0) (placed (advances non_incr from_user) (ep_addr ?v0) bs) ds)"
    using assms by (intro build_loop_blocks) (auto simp: blocks_def hd)
  then show ?thesis
    unfolding e runs_mbind [of "arr_read l 0"] using \<open>l \<noteq> []\<close> by simp
qed

end
