(* ===== verification/EngineProps.thy ===== *)
theory EngineProps
  imports DemoKernel Launch Coalesce
begin

text \<open>
  Properties of the engine and of the descriptors as a whole: the transfer \<open>transfer_start\<close> launches,
  two of them at once, the self test \<open>test_h2c\<close>, and \<open>transfer_build\<close> against its reference.
\<close>

section \<open>The engine\<close>

text \<open>
  C15: Transfers that are run one after another on a host with the byte order of the device launch the
  engine once each, in order, with the bus address of the transfer's list and with at most 15 adjacent
  descriptors; each returns 0, and the last leaves the engine stopped.
\<close>

theorem transfer_launches_list:
  assumes "little_host K" and "blocks_at (engine_regs_h2c w) (engine_sgdma_regs w)"
  shows "runs (run_transfers K pdev ts) w (\<lambda>_ w'. \<exists>es. w' = logged w es
    \<and> (\<forall>m. launches (engine_regs_h2c w) (engine_sgdma_regs w) m es
          = map (\<lambda>t. (desc_bus t, word_of_int (min 15 (max 0 (desc_adjacent t - 1))))) ts
        \<and> (ts \<noteq> [] \<longrightarrow> after es m (engine_regs_h2c w + 0x04) = 0)))"
proof -
  have "first_extra_adj n = min 15 (max 0 (n - 1))" for n
    by (simp add: first_extra_adj_def MAX_EXTRA_ADJ_def Let_def)
  then show ?thesis
    by (intro runs_weaken [OF run_transfers_launch [OF assms]]) (auto simp: launched_all_def own_list_def)
qed

lemma demo_little: "little_host demo_kernel"
  by (simp add: little_host_def demo_kernel_def)

lemma demo_blocks: "blocks_at (engine_regs_h2c demo_world) (engine_sgdma_regs demo_world)"
  by (simp add: blocks_at_def demo_world_def TARGET_SPACING_def)

theorem transfer_launches_list_witness:
  "runs (run_transfers demo_kernel 0 [zero_transfer\<lparr>desc_bus := 0x2000, desc_adjacent := 2\<rparr>, zero_transfer\<lparr>desc_bus := 0x3000\<rparr>])
    demo_world (\<lambda>_ w'. \<exists>es. w' = logged demo_world es \<and> (\<forall>m. launches 0x10000 0x14000 m es = [(0x2000, 1), (0x3000, 0)]))"
  by (rule runs_weaken [OF transfer_launches_list [OF demo_little demo_blocks]])
    (auto simp: demo_world_def zero_transfer_def)

text \<open>
  C16: Nothing keeps two processes from writing at the same time. There is an order of the register
  accesses of two transfers in which the engine runs the list of the second transfer twice and that
  of the first not at all, and one in which it is started, twice, at an address made of the high half
  of the first list's and the low half of the second's; all transfers report success.
\<close>

theorem concurrent_transfers_lose_one:
  assumes "little_host K" and "blocks_at (engine_regs_h2c w) (engine_sgdma_regs w)"
  shows "\<exists>es1 es2. transfer_start K pdev t1 w = Inr (0, logged w es1)
    \<and> transfer_start K pdev t2 w = Inr (0, logged w es2)
    \<and> (\<exists>es \<in> shuffles es1 es2. \<forall>m. map fst (launches (engine_regs_h2c w) (engine_sgdma_regs w) m es)
          = [desc_bus t2, desc_bus t2])
    \<and> (\<exists>es \<in> shuffles es1 es2. \<forall>m. map fst (launches (engine_regs_h2c w) (engine_sgdma_regs w) m es)
          = replicate 2 (dma_join (ucast (PCI_DMA_H (desc_bus t1))) (ucast (PCI_DMA_L (desc_bus t2)))))"
proof -
  let ?h = "engine_regs_h2c w" and ?s = "engine_sgdma_regs w"
  have run: "\<exists>v0 v1 v2 v3. transfer_start K pdev t w = Inr (0, logged w
      (transfer_events K ?h ?s (desc_bus t) (desc_adjacent t) v0 v1 v2 v3))" for t
    using transfer_start_runs [of K pdev t w] unfolding runs_iff by blast
  from run [of t1] obtain v0 v1 v2 v3 where r1: "transfer_start K pdev t1 w = Inr (0, logged w
      (transfer_events K ?h ?s (desc_bus t1) (desc_adjacent t1) v0 v1 v2 v3))" by blast
  from run [of t2] obtain u0 u1 u2 u3 where r2: "transfer_start K pdev t2 w = Inr (0, logged w
      (transfer_events K ?h ?s (desc_bus t2) (desc_adjacent t2) u0 u1 u2 u3))" by blast
  obtain es where es: "es \<in> shuffles (transfer_events K ?h ?s (desc_bus t1) (desc_adjacent t1) v0 v1 v2 v3)
      (transfer_events K ?h ?s (desc_bus t2) (desc_adjacent t2) u0 u1 u2 u3)"
    "\<And>m. launches ?h ?s m es = [own_list (desc_bus t2) (desc_adjacent t2), own_list (desc_bus t2) (desc_adjacent t2)]"
    using interleaved_launches [OF assms] by blast
  show ?thesis
    by (intro exI conjI, rule r1, rule r2, rule bexI [OF _ es(1)], simp add: es(2) own_list_def,
      rule torn_launches [OF assms])
qed

theorem concurrent_transfers_lose_one_witness:
  "\<exists>es1 es2. transfer_start demo_kernel 0 (zero_transfer\<lparr>desc_bus := 0x100002000\<rparr>) demo_world = Inr (0, logged demo_world es1)
    \<and> transfer_start demo_kernel 0 (zero_transfer\<lparr>desc_bus := 0x200003000\<rparr>) demo_world = Inr (0, logged demo_world es2)
    \<and> (\<exists>es \<in> shuffles es1 es2. \<forall>m. map fst (launches 0x10000 0x14000 m es) = [0x200003000, 0x200003000])
    \<and> (\<exists>es \<in> shuffles es1 es2. \<forall>m. map fst (launches 0x10000 0x14000 m es) = [0x100003000, 0x100003000])"
proof -
  have a: "engine_regs_h2c demo_world = 0x10000" "engine_sgdma_regs demo_world = 0x14000"
    by (simp_all add: demo_world_def)
  have "replicate 2 (dma_join (ucast (PCI_DMA_H 0x100002000)) (ucast (PCI_DMA_L 0x200003000))) = [0x100003000, 0x100003000]"
    by code_simp
  then show ?thesis
    using concurrent_transfers_lose_one [OF demo_little demo_blocks, of 0
      "zero_transfer\<lparr>desc_bus := 0x100002000\<rparr>" "zero_transfer\<lparr>desc_bus := 0x200003000\<rparr>"]
    unfolding a by simp
qed

text \<open>
  The self-test succeeds or gives up, and either way leaves the memory of the driver as it was:
  everything it allocates it frees, and when it runs, it runs the engine once on its own descriptor.
\<close>

lemma test_leaves_memory:
  assumes "coherent_ok K"
  shows "runs (test_h2c K pdev) w (\<lambda>rc w'. rc = 0 \<and>
    (\<exists>es. w' = logged w es \<and> test_events K pdev (engine_regs_h2c w) (engine_sgdma_regs w) es))"
  by (rule test_h2c_runs [OF assms])

text \<open>
  C17: The index loop of \<open>transfer_build\<close> with its eight variables computes what the reference
  definition says: the segments of the list merged into blocks, each placed on the card and stored
  in the first descriptors. The result is the index of the last block.
\<close>

theorem build_equals_blocks:
  assumes "0 < n" and "n \<le> length l" and "n \<le> length ds"
  shows "build_descs K l (int n) ep to_dev non_incr force_new from_user ds =
    (let bs = blocks (force_new \<noteq> 0 \<and> from_user = 0) (segments (take n l)) in
     Inr (int (length bs - 1), store_blocks K to_dev 0 (placed (from_user = 0 \<or> non_incr = 0) ep bs) ds))"
  using build_descs_blocks [OF assms refl, of K ep to_dev non_incr force_new from_user]
  by (auto simp: runs_iff every_entry_def advances_def Let_def)

theorem build_equals_blocks_witness:
  "build_descs demo_kernel [zero_sg\<lparr>dma_address := 0x1000, dma_length := 8\<rparr>, zero_sg\<lparr>dma_address := 0x1008, dma_length := 8\<rparr>]
     2 0x100 1 0 0 1 [zero_desc, zero_desc]
   = Inr (0, [xdma_desc_set demo_kernel 0x1000 0x100 16 1 zero_desc, zero_desc])"
  using build_equals_blocks [of 2 "[zero_sg\<lparr>dma_address := 0x1000, dma_length := 8\<rparr>, zero_sg\<lparr>dma_address := 0x1008, dma_length := 8\<rparr>]"
     "[zero_desc, zero_desc]" demo_kernel "0x100" 1 0 0 1]
  by (simp add: segments_def blocks_def XDMA_DESC_MAX_BYTES_def PAGE_SIZE_def)

end
