(* ===== verification/DeviceProps.thy ===== *)
theory DeviceProps
  imports DemoKernel Launch
begin

text \<open>
  Properties of the PCI device (\<open>map_single_bar\<close>, \<open>xpcie_probe\<close>, \<open>xpcie_remove\<close>), of the register
  accesses, and of the mappings of a base address register into user space.
\<close>

section \<open>The PCI device\<close>

text \<open>
  Mapping a base address register asks for the whole register or for \<open>INT_MAX\<close> bytes of it,
  whichever is less, and returns that number, 0 for an absent register, or -1 when the kernel cannot
  map it. No other register's mapping is touched.
\<close>

lemma map_single_bar_bounded:
  assumes "i < length (bar w)"
  shows "runs (map_single_bar K dev (int i)) w (\<lambda>rc w'.
    rc \<in> {0, - 1, int (min (unat (k_pci_resource_len K dev (int i))) (2 ^ 31 - 1))}
    \<and> (rc = 0 \<longleftrightarrow> k_pci_resource_len K dev (int i) = 0) \<and> (rc = - 1 \<longrightarrow> bar w' ! i = 0)
    \<and> (\<forall>k. k \<noteq> i \<longrightarrow> bar w' ! k = bar w ! k))"
proof (rule runs_weaken [OF map_single_bar_runs [OF assms]])
  fix rc w'
  assume o: "w' = mapped_bar K dev i w
    \<and> (if k_pci_resource_len K dev (int i) = 0 then rc = 0
       else if bar w' ! i = 0 then rc = - 1 else rc = int (bar_map_len K dev (int i)))"
  have pos: "0 < bar_map_len K dev (int i)" if "k_pci_resource_len K dev (int i) \<noteq> 0"
    using that by (simp add: bar_map_len_def unat_gt_0)
  show "rc \<in> {0, - 1, int (min (unat (k_pci_resource_len K dev (int i))) (2 ^ 31 - 1))}
    \<and> (rc = 0 \<longleftrightarrow> k_pci_resource_len K dev (int i) = 0) \<and> (rc = - 1 \<longrightarrow> bar w' ! i = 0)
    \<and> (\<forall>k. k \<noteq> i \<longrightarrow> bar w' ! k = bar w ! k)"
  proof (cases "k_pci_resource_len K dev (int i) = 0")
    case True
    then show ?thesis using o by (simp add: mapped_bar_def)
  next
    case False
    then show ?thesis
      using o pos bar_mapped_bar [of _ i K dev w] unfolding bar_map_len_def [of K dev "int i", symmetric]
      by (auto split: if_splits)
  qed
qed



text \<open>
  C19: Binding a device and unbinding it again unmaps every register that was mapped, once, and
  ends by releasing the regions and disabling the device.
\<close>

theorem remove_undoes_probe:
  assumes "bar w = [0, 0]" and "pdev \<noteq> 0"
  shows "runs (mbind (xpcie_probe K pdev) (\<lambda>rc. mbind (if rc = 0 then xpcie_remove pdev else ret ()) (\<lambda>_. ret rc))) w
    (\<lambda>rc w'. bar w' = [0, 0] \<and> (\<exists>es. trace w' = trace w @ es \<and> mset (iomaps es) = mset (iounmaps es)
      \<and> (rc = 0 \<longrightarrow> (\<exists>es'. es = es' @ [Pci (E_release_regions pdev), Pci (E_disable_device pdev)]))))"
proof -
  have len: "length (bar w) = 2" using assms(1) by simp
  have after_probe: "runs (mbind (if rc = 0 then xpcie_remove pdev else ret ()) (\<lambda>_. ret rc)) w1
    (\<lambda>rc w'. bar w' = [0, 0] \<and> (\<exists>es. trace w' = trace w @ es \<and> mset (iomaps es) = mset (iounmaps es)
      \<and> (rc = 0 \<longrightarrow> (\<exists>es'. es = es' @ [Pci (E_release_regions pdev), Pci (E_disable_device pdev)]))))"
    if o: "probe_outcome K pdev w rc w1" for rc w1
  proof (cases "rc = 0")
    case False
    then show ?thesis using o assms(1) by (auto simp: probe_outcome_def Let_def)
  next
    case True
    then obtain es where es: "trace w1 = trace w @ probe_events pdev @ es" "iounmaps es = []"
      "length (bar w1) = 2" "iomaps es = filter (\<lambda>p. p \<noteq> 0) (bar w1)"
      using o len assms(1) by (auto elim!: probe_success)
    then have "mset (iomaps (probe_events pdev @ es @ unmap_events pdev (bar w1)))
        = mset (iounmaps (probe_events pdev @ es @ unmap_events pdev (bar w1)))"
      by (simp add: probe_events_def)
    then show ?thesis
      using True es by (simp add: xpcie_remove_runs)
  qed
  show ?thesis
    unfolding runs_mbind [of "xpcie_probe K pdev"]
    by (rule runs_weaken [OF xpcie_probe_runs [OF len assms(2)] after_probe])
qed

theorem remove_undoes_probe_witness:
  "runs (mbind (xpcie_probe demo_kernel 0x7000) (\<lambda>rc. mbind (if rc = 0 then xpcie_remove 0x7000 else ret ()) (\<lambda>_. ret rc)))
    demo_world (\<lambda>rc w'. bar w' = [0, 0])"
  by (rule runs_weaken [OF remove_undoes_probe]) (auto simp: demo_world_def)

text \<open>The register an access is to.\<close>

fun accesses :: "event \<Rightarrow> u64 option" where
  "accesses (Io (E_iowrite32 v a)) = Some a"
| "accesses (Io (E_ioread32 a v)) = Some a"
| "accesses e = None"

lemma block_offset_inside:
  assumes "unat (p :: u64) + n \<le> 2 ^ 64" and "unat k + 4 \<le> n"
  shows "unat p \<le> unat (p + k) \<and> unat (p + k) + 4 \<le> unat p + n"
proof -
  have "unat (p + k) = unat p + unat k"
    using assms by (subst unat_add_lem [THEN iffD1]) simp_all
  then show ?thesis using assms(2) by simp
qed

lemma probe_locates:
  assumes "length (bar w) = 2" and "pdev \<noteq> 0" and "xpcie_probe K pdev w = Inr (0, w1)"
    and "k_pci_resource_len K pdev 1 \<noteq> 0"
  shows "\<exists>v. bar w1 ! 1 = k_pci_iomap K v pdev 1 (of_nat (bar_map_len K pdev 1))
    \<and> engine_regs_h2c w1 = bar w1 ! 1 \<and> engine_sgdma_regs w1 = bar w1 ! 1 + 0x4000"
proof -
  let ?w4 = "logged (w\<lparr>xpcie_dev := pdev\<rparr>) [Pci (E_enable_device pdev 0), Pci (E_set_master pdev), Pci (E_request_regions pdev 0)]"
  have "probe_outcome K pdev w 0 w1"
    by (rule runsD [OF xpcie_probe_runs [OF assms(1,2)] assms(3)])
  then obtain mrc es where "w1 = logged (located (mapped_bar K pdev 1 (mapped_bar K pdev 0 ?w4))) es"
    by (auto simp: probe_outcome_def Let_def)
  moreover have "bar (mapped_bar K pdev 1 v) ! 1 = k_pci_iomap K v pdev 1 (of_nat (bar_map_len K pdev 1))"
    if "length (bar v) = 2" for v
    using that assms(4) by (simp add: mapped_bar_def Let_def)
  ultimately show ?thesis
    using assms(1) by (intro exI [of _ "mapped_bar K pdev 0 ?w4"]) (simp add: located_def TARGET_SPACING_def)
qed

text \<open>
  C20: After a successful probe of a device whose second base address register is mapped and has at
  least 0x4090 bytes, every register a transfer reads or writes lies inside the mapping.
\<close>

theorem registers_inside_mapping:
  assumes "length (bar w) = 2" and "pdev \<noteq> 0" and "xpcie_probe K pdev w = Inr (0, w1)"
    and "0x4090 \<le> unat (k_pci_resource_len K pdev 1)"
    and "\<And>v n. unat n \<le> unat (k_pci_resource_len K pdev 1) \<Longrightarrow> unat (k_pci_iomap K v pdev 1 n) + unat n \<le> 2 ^ 64"
  shows "runs (transfer_start K pdev t) w1 (\<lambda>rc w2. \<exists>es. w2 = logged w1 es \<and>
    (\<forall>e \<in> set es. case accesses e of None \<Rightarrow> True | Some a \<Rightarrow>
       unat (bar w1 ! 1) \<le> unat a \<and> unat a + 4 \<le> unat (bar w1 ! 1) + min (unat (k_pci_resource_len K pdev 1)) (2 ^ 31 - 1)))"
proof (rule runs_weaken [OF transfer_start_runs])
  fix rc w2
  let ?n = "bar_map_len K pdev 1" and ?p = "bar w1 ! 1"
  assume o: "rc = 0 \<and> (\<exists>v0 v1 v2 v3. w2 = logged w1
     (transfer_events K (engine_regs_h2c w1) (engine_sgdma_regs w1) (desc_bus t) (desc_adjacent t) v0 v1 v2 v3))"
  have "k_pci_resource_len K pdev 1 \<noteq> 0" using assms(4) by auto
  from probe_locates [OF assms(1-3) this] obtain v where p: "?p = k_pci_iomap K v pdev 1 (of_nat ?n)"
    and regs: "engine_regs_h2c w1 = ?p" "engine_sgdma_regs w1 = ?p + 0x4000"
    by blast
  have n: "unat (of_nat ?n :: u64) = ?n" "0x4090 \<le> ?n"
    using assms(4) by (simp_all add: bar_map_len_def unsigned_of_nat take_bit_nat_eq_self)
  have fits: "unat ?p + ?n \<le> 2 ^ 64" using assms(5) [of "of_nat ?n" v] n(1) p by (simp add: bar_map_len_def)
  have ins: "unat ?p \<le> unat (?p + k) \<and> unat (?p + k) + 4 \<le> unat ?p + ?n" if "unat k + 4 \<le> 0x4090" for k :: u64
    using that n(2) by (intro block_offset_inside [OF fits]) simp
  show "\<exists>es. w2 = logged w1 es \<and>
    (\<forall>e \<in> set es. case accesses e of None \<Rightarrow> True | Some a \<Rightarrow>
       unat ?p \<le> unat a \<and> unat a + 4 \<le> unat ?p + min (unat (k_pci_resource_len K pdev 1)) (2 ^ 31 - 1))"
    using o unfolding regs
  proof (elim conjE exE)
    fix v0 v1 v2 v3
    let ?es = "transfer_events K ?p (?p + 0x4000) (desc_bus t) (desc_adjacent t) v0 v1 v2 v3"
    assume w2: "w2 = logged w1 ?es"
    have "\<forall>e \<in> set ?es. case accesses e of None \<Rightarrow> True | Some a \<Rightarrow> unat ?p \<le> unat a \<and> unat a + 4 \<le> unat ?p + ?n"
      using ins [of 4] ins [of "0x40"] ins [of "0x4080"] ins [of "0x4084"] ins [of "0x4088"]
      by (simp add: transfer_events_def engine_events_def add.assoc)
    then show ?thesis using w2 unfolding bar_map_len_def [symmetric] by blast
  qed
qed

theorem registers_inside_mapping_witness:
  "\<exists>w1. xpcie_probe demo_kernel 0x7000 demo_world = Inr (0, w1)
    \<and> runs (transfer_start demo_kernel 0x7000 zero_transfer) w1 (\<lambda>rc w2. \<exists>es. w2 = logged w1 es \<and>
      (\<forall>e \<in> set es. case accesses e of None \<Rightarrow> True | Some a \<Rightarrow>
         unat (bar w1 ! 1) \<le> unat a \<and> unat a + 4 \<le> unat (bar w1 ! 1) + min (unat (k_pci_resource_len demo_kernel 0x7000 1)) (2 ^ 31 - 1)))"
proof -
  have "case xpcie_probe demo_kernel 0x7000 demo_world of Inl _ \<Rightarrow> False | Inr (rc, w1) \<Rightarrow> rc = 0"
    by code_simp
  then obtain w1 where w1: "xpcie_probe demo_kernel 0x7000 demo_world = Inr (0, w1)"
    by (auto split: sum.splits)
  have "runs (transfer_start demo_kernel 0x7000 zero_transfer) w1 (\<lambda>rc w2. \<exists>es. w2 = logged w1 es \<and>
      (\<forall>e \<in> set es. case accesses e of None \<Rightarrow> True | Some a \<Rightarrow>
         unat (bar w1 ! 1) \<le> unat a \<and> unat a + 4 \<le> unat (bar w1 ! 1) + min (unat (k_pci_resource_len demo_kernel 0x7000 1)) (2 ^ 31 - 1)))"
    by (rule registers_inside_mapping [OF _ _ w1]) (simp_all add: demo_world_def demo_kernel_def demo_bar_start_def demo_bar_len_def)
  with w1 show ?thesis by blast
qed

section \<open>Mapping registers into a process\<close>

text \<open>
  C21: For an offset inside the base address register the two mapping operations expose no physical
  address outside of it. If one succeeds, exactly the addresses at the offset are visible through the
  area, which is not cached and flagged as device memory.
\<close>

theorem mmap_stays_inside:
  assumes "window_ok (bar_base K 0 w) (bar_len K 0 w)" and "vma_offset vma \<le> bar_len K 0 w"
    and "window_ok (bar_base K 1 w) (bar_len K 1 w)" and "vma_offset vma' \<le> bar_len K 1 w"
  shows "runs (xpcie_user_mmap K vma) w (\<lambda>r w'. fst r \<in> {0, - EINVAL, - EAGAIN} \<and> (\<exists>es. w' = logged w es
       \<and> (\<forall>e \<in> set es. bar_base K 0 w \<le> fst (exposed e) \<and> fst (exposed e) + snd (exposed e) \<le> bar_base K 0 w + bar_len K 0 w)
       \<and> (fst r = 0 \<longrightarrow> snd r = device_area K vma \<and> map exposed es = [(bar_base K 0 w + vma_offset vma, vma_size vma)])))
    \<and> runs (xpcie_h2c_mmap K vma') w (\<lambda>r w'. fst r \<in> {0, - EINVAL, - EAGAIN} \<and> (\<exists>es. w' = logged w es
       \<and> (\<forall>e \<in> set es. bar_base K 1 w \<le> fst (exposed e) \<and> fst (exposed e) + snd (exposed e) \<le> bar_base K 1 w + bar_len K 1 w)
       \<and> (fst r = 0 \<longrightarrow> snd r = device_area K vma' \<and> map exposed es = [(bar_base K 1 w + vma_offset vma', vma_size vma')])))"
  using user_mmap.inside [OF assms(1,2)] h2c_mmap.inside [OF assms(3,4)]
  by (auto simp: runs_iff)

definition demo_vma :: vm_area_struct where
  "demo_vma = \<lparr>vm_start = 0x7F0000000000, vm_end = 0x7F0000001000, vm_pgoff = 0, vm_page_prot = 0, vm_flags = 0\<rparr>"

lemma demo_windows:
  "window_ok (bar_base demo_kernel 0 w) (bar_len demo_kernel 0 w)" "window_ok (bar_base demo_kernel 1 w) (bar_len demo_kernel 1 w)"
  "bar_len demo_kernel 0 w = 0x1000"
  by (simp_all add: window_ok_def bar_base_def bar_len_def demo_kernel_def demo_bar_start_def demo_bar_len_def)

theorem mmap_stays_inside_witness:
  "runs (xpcie_user_mmap demo_kernel demo_vma) demo_world (\<lambda>r w'. \<exists>es. w' = logged demo_world es
     \<and> (\<forall>e \<in> set es. 0xF0000000 \<le> fst (exposed e) \<and> fst (exposed e) + snd (exposed e) \<le> 0xF0001000))"
proof -
  have b: "bar_base demo_kernel 0 demo_world = 0xF0000000"
    by (simp add: bar_base_def demo_kernel_def demo_bar_start_def)
  have "vma_offset demo_vma = 0" by (simp add: vma_offset_def demo_vma_def)
  then show ?thesis
    using mmap_stays_inside [OF demo_windows(1) _ demo_windows(2), of demo_vma demo_world demo_vma]
    by (auto simp: runs_iff b demo_windows(3))
qed

text \<open>
  C22: Beyond the end of the base address register the size test is void. For an offset past the
  end, any area of a moderate size is accepted, and physical memory that does not belong to the
  device is mapped into the process.
\<close>

theorem mmap_beyond_the_end:
  assumes "window_ok (bar_base K 0 w) (bar_len K 0 w)" and "bar_len K 0 w < vma_offset vma"
    and "bar_base K 0 w + vma_offset vma < 2 ^ 64"
    and "vma_size vma \<le> 2 ^ 64 - (vma_offset vma - bar_len K 0 w)"
  shows "runs (xpcie_user_mmap K vma) w (\<lambda>r w'. \<exists>e. w' = logged w [e]
      \<and> bar_base K 0 w + bar_len K 0 w < fst (exposed e) \<and> snd (exposed e) = vma_size vma)"
  unfolding xpcie_user_mmap_def Let_def
  by (rule runs_weaken [OF mmap_bar_beyond [OF assms]]) (use assms(2) in auto)

theorem mmap_beyond_the_end_witness:
  "runs (xpcie_user_mmap demo_kernel (demo_vma\<lparr>vm_pgoff := 2\<rparr>)) demo_world (\<lambda>r w'. \<exists>e. w' = logged demo_world [e]
      \<and> 0xF0001000 < fst (exposed e) \<and> snd (exposed e) = 0x1000)"
proof -
  have b: "bar_base demo_kernel 0 demo_world = 0xF0000000"
    by (simp add: bar_base_def demo_kernel_def demo_bar_start_def)
  have v: "vma_offset (demo_vma\<lparr>vm_pgoff := 2\<rparr>) = 0x2000" "vma_size (demo_vma\<lparr>vm_pgoff := 2\<rparr>) = 0x1000"
    by (simp_all add: vma_offset_def vma_size_def demo_vma_def PAGE_SHIFT_def)
  show ?thesis
    using mmap_beyond_the_end [OF demo_windows(1), of demo_world "demo_vma\<lparr>vm_pgoff := 2\<rparr>"]
    by (simp add: b v demo_windows(3))
qed

end
