(* ===== verification/LogUtils.thy ===== *)
theory LogUtils
  imports Prelude
begin

text \<open>
  \<^verbatim>\<open>app/LogUtils.cpp\<close> and \<^verbatim>\<open>app/LogUtils.h\<close>: the hexadecimal dump and the line-wise log stream. The
  state of a dump is the text printed so far; a read past the end of the buffer crashes. A reader
  of the dump, which puts the buffer together again from the text, says that the dump is complete
  although it leaves lines out.
\<close>

section \<open>Conversions of printf\<close>

definition hex_char :: "nat \<Rightarrow> char" where
  "hex_char n = ''0123456789ABCDEF'' ! n"

fun hex_digits :: "nat \<Rightarrow> string" where
  "hex_digits n = (if n < 16 then [hex_char n] else hex_digits (n div 16) @ [hex_char (n mod 16)])"

declare hex_digits.simps [simp del]

text \<open>\<open>%.wX\<close>: at least \<open>w\<close> digits.\<close>

definition hex_min :: "nat \<Rightarrow> nat \<Rightarrow> string" where
  "hex_min w n = replicate (w - length (hex_digits n)) CHR ''0'' @ hex_digits n"

fun dec_digits :: "nat \<Rightarrow> string" where
  "dec_digits n = (if n < 10 then [hex_char n] else dec_digits (n div 10) @ [hex_char (n mod 10)])"

declare dec_digits.simps [simp del]

definition dec_long :: "int \<Rightarrow> string" where
  "dec_long i = (if i < 0 then CHR ''-'' # dec_digits (nat (- i)) else dec_digits (nat i))"

text \<open>\<open>%.8lX\<close>: a \<open>long\<close> printed as an unsigned number.\<close>

definition hex_long :: "int \<Rightarrow> string" where
  "hex_long i = hex_min 8 (nat (i mod 2 ^ 64))"

definition newline :: char where
  "newline = CHR 0x0A"

section \<open>The dump\<close>

definition WIDE :: int where
  "WIDE = 16"

definition FULL :: int where
  "FULL = 0"

definition SAFE :: "u8 \<Rightarrow> char" where
  "SAFE c = (if 32 \<le> c \<and> c \<le> 126 then char_of (unat c) else CHR ''.'')"

definition print :: "string \<Rightarrow> (string, unit) prog" where
  "print s = modify (\<lambda>out. out @ s)"

text \<open>The bytes \<open>memcmp\<close> compares.\<close>

definition bytes_at :: "u8 list \<Rightarrow> int \<Rightarrow> int \<Rightarrow> (string, u8 list) prog" where
  "bytes_at buf i n = (if 0 \<le> i \<and> nat i + nat n \<le> length buf then ret (take (nat n) (drop (nat i) buf))
     else crash_with Out_Of_Bounds)"

definition memcmp_eq :: "u8 list \<Rightarrow> int \<Rightarrow> int \<Rightarrow> int \<Rightarrow> (string, bool) prog" where
  "memcmp_eq buf i k n = mbind (bytes_at buf i n) (\<lambda>x. mbind (bytes_at buf k n) (\<lambda>y. ret (x = y)))"

text \<open>Is the line left out; else its address is printed (1). The result tells whether to go on.\<close>

definition dump_address :: "u8 list \<Rightarrow> int \<Rightarrow> int \<Rightarrow> (string, bool) prog" where
  "dump_address buf n i =
     (if FULL \<noteq> 0 then mthen (print (hex_long i @ '':'')) (ret True)
      else
        mbind (if n \<ge> WIDE \<and> i \<ge> WIDE then memcmp_eq buf i (i - WIDE) WIDE else ret False) (\<lambda>same.
        if same then ret False
        else
          mbind (if n \<ge> 2 * WIDE then memcmp_eq buf i (i + WIDE) WIDE else ret False) (\<lambda>next.
          mthen (print (hex_long i @ (if next then ''*'' else '':''))) (ret True))))"

text \<open>(2): the bytes in hexadecimal; (3): the characters.\<close>

definition dump_hex :: "u8 list \<Rightarrow> int \<Rightarrow> int \<Rightarrow> (string, unit) prog" where
  "dump_hex buf n i = forM [0..<nat WIDE] (\<lambda>j.
     if int j < n then mbind (arr_read buf (nat i + j)) (\<lambda>b. print ('' '' @ hex_min 2 (unat b))) else print '' --'')"

definition dump_ascii :: "u8 list \<Rightarrow> int \<Rightarrow> int \<Rightarrow> (string, unit) prog" where
  "dump_ascii buf n i = forM [0..<nat WIDE] (\<lambda>j.
     if int j < n then mbind (arr_read buf (nat i + j)) (\<lambda>b. print [SAFE b]) else ret ())"

definition dump_step :: "u8 list \<Rightarrow> int \<Rightarrow> int \<Rightarrow> (string, unit) prog" where
  "dump_step buf sz i =
     (let n = sz - i in
      mbind (dump_address buf n i) (\<lambda>shown.
      if shown then
        mthen (dump_hex buf n i)
        (mthen (print ''  '')
        (mthen (dump_ascii buf n i)
        (print [newline])))
      else ret ()))"

function dump_lines :: "u8 list \<Rightarrow> int \<Rightarrow> int \<Rightarrow> (string, unit) prog" where
  "dump_lines buf sz i =
     (if i < sz then mthen (dump_step buf sz i) (dump_lines buf sz (i + WIDE)) else ret ())"
  by pat_completeness auto
termination
  by (relation "measure (\<lambda>(buf, sz, i). nat (sz - i))") (auto simp: WIDE_def)

declare dump_lines.simps [simp del]

text \<open>\<open>Mtime\<close> is never assigned: it is 0.\<close>

definition hex_dump :: "u8 list \<Rightarrow> int \<Rightarrow> (string, unit) prog" where
  "hex_dump buf sz =
     mthen (dump_lines buf sz 0)
     (print (hex_long sz @ '': end ('' @ dec_long sz @ '' bytes) mtime '' @ dec_long 0 @ [newline]))"

section \<open>The reader\<close>

definition digit_value :: "char \<Rightarrow> nat" where
  "digit_value c = (let n = of_char c in if n < 58 then n - 48 else n - 55)"

definition read_hex :: "string \<Rightarrow> nat" where
  "read_hex = foldl (\<lambda>a c. 16 * a + digit_value c) 0"

fun split_lines :: "string \<Rightarrow> string \<Rightarrow> string list" where
  "split_lines acc [] = []"
| "split_lines acc (c # s) = (if c = newline then acc # split_lines [] s else split_lines (acc @ [c]) s)"

fun read_bytes :: "nat \<Rightarrow> string \<Rightarrow> u8 list" where
  "read_bytes (Suc k) (c # a # b # s) = (if a = CHR ''-'' then [] else of_nat (read_hex [a, b]) # read_bytes k s)"
| "read_bytes k s = []"

definition address_part :: "string \<Rightarrow> string" where
  "address_part = takeWhile (\<lambda>c. c \<noteq> CHR '':'' \<and> c \<noteq> CHR ''*'')"

definition read_line :: "string \<Rightarrow> nat \<times> u8 list" where
  "read_line s = (let a = address_part s in (read_hex a, read_bytes 16 (drop (Suc (length a)) s)))"

text \<open>A line stands for itself and for the lines left out after it.\<close>

definition repeated :: "u8 list \<Rightarrow> nat \<Rightarrow> u8 list" where
  "repeated bs m = take m (concat (replicate m bs))"

fun expand :: "(nat \<times> u8 list) list \<Rightarrow> nat \<Rightarrow> u8 list" where
  "expand [] n = []"
| "expand [(a, bs)] n = repeated bs (n - a)"
| "expand ((a, bs) # (b, cs) # rs) n = repeated bs (b - a) @ expand ((b, cs) # rs) n"

definition undump :: "string \<Rightarrow> u8 list" where
  "undump s = (let ls = split_lines [] s in
     expand (map read_line (butlast ls)) (read_hex (address_part (last ls))))"

section \<open>Reading numbers back\<close>

lemma all_less_16: "(\<forall>n < 16. P n) \<longleftrightarrow> (\<forall>n \<in> set [0..<16]. P n)" for P :: "nat \<Rightarrow> bool"
  by auto

lemma hex_char_facts:
  "\<forall>n < 16. digit_value (hex_char n) = n \<and> hex_char n \<notin> {newline, CHR '':'', CHR ''*'', CHR ''-''}"
  unfolding all_less_16 by code_simp

lemma hex_char_value [simp]: "n < 16 \<Longrightarrow> digit_value (hex_char n) = n"
  and hex_char_other: "n < 16 \<Longrightarrow> hex_char n \<notin> {newline, CHR '':'', CHR ''*'', CHR ''-''}"
  using hex_char_facts by blast+

definition plain :: "string \<Rightarrow> bool" where
  "plain s \<longleftrightarrow> newline \<notin> set s \<and> CHR '':'' \<notin> set s \<and> CHR ''*'' \<notin> set s \<and> CHR ''-'' \<notin> set s"

lemma read_hex_append: "read_hex (s @ [c]) = 16 * read_hex s + digit_value c"
  by (simp add: read_hex_def)

lemma read_hex_digits [simp]: "read_hex (hex_digits n) = n"
proof (induction n rule: hex_digits.induct)
  case (1 n)
  show ?case
  proof (cases "n < 16")
    case True
    then show ?thesis by (subst hex_digits.simps) (simp add: read_hex_def)
  next
    case False
    then have "read_hex (hex_digits n) = 16 * (n div 16) + n mod 16"
      using 1 by (subst hex_digits.simps) (simp add: read_hex_append)
    then show ?thesis by simp
  qed
qed

lemma hex_digits_plain: "plain (hex_digits n)"
proof (induction n rule: hex_digits.induct)
  case (1 n)
  show ?case
    using 1 hex_char_other [of n] hex_char_other [of "n mod 16"] by (subst hex_digits.simps) (auto simp: plain_def)
qed

lemma read_hex_zeros: "read_hex (replicate k CHR ''0'' @ s) = read_hex s"
proof (induction k)
  case (Suc k)
  have "digit_value CHR ''0'' = 0" by (simp add: digit_value_def)
  then show ?case using Suc by (simp add: read_hex_def)
qed simp

lemma read_hex_min [simp]: "read_hex (hex_min w n) = n"
  by (simp add: hex_min_def read_hex_zeros)

lemma hex_min_plain: "plain (hex_min w n)"
proof -
  have "newline \<noteq> CHR ''0''" by (simp add: newline_def)
  then show ?thesis using hex_digits_plain [of n] by (auto simp: hex_min_def plain_def)
qed

lemma hex_min_two:
  obtains a b where "hex_min 2 (unat (c :: u8)) = [a, b]"
proof -
  have "unat c < 256" using unsigned_less [of c, where 'a = nat] by simp
  then have "unat c div 16 < 16" by simp
  then have "length (hex_digits (unat c)) \<le> 2"
    by (simp add: hex_digits.simps [of "unat c"] hex_digits.simps [of "unat c div 16"])
  then have "length (hex_min 2 (unat c)) = 2" by (simp add: hex_min_def)
  then show thesis using that by (auto simp: length_Suc_conv numeral_2_eq_2)
qed

section \<open>Reading a line back\<close>

fun hex_text :: "nat \<Rightarrow> u8 list \<Rightarrow> string" where
  "hex_text 0 bs = []"
| "hex_text (Suc k) [] = '' --'' @ hex_text k []"
| "hex_text (Suc k) (b # bs) = '' '' @ hex_min 2 (unat b) @ hex_text k bs"

lemma upt_Suc_map: "map f [0..<Suc k] = f 0 # map (\<lambda>j. f (Suc j)) [0..<k]"
  by (simp add: upt_conv_Cons map_Suc_upt [symmetric] del: upt_Suc)

lemma hex_text_map:
  "hex_text k bs = concat (map (\<lambda>j. if j < length bs then '' '' @ hex_min 2 (unat (bs ! j)) else '' --'') [0..<k])"
proof (induction k bs rule: hex_text.induct)
  case (2 k)
  then show ?case by (simp add: upt_Suc_map del: upt_Suc)
next
  case (3 k b bs)
  then show ?case by (simp add: upt_Suc_map cong: if_cong del: upt_Suc)
qed simp

lemma read_bytes_text: "length bs \<le> k \<Longrightarrow> read_bytes k (hex_text k bs @ rest) = bs"
proof (induction k bs rule: hex_text.induct)
  case (3 k b bs)
  obtain x y where d: "hex_min 2 (unat b) = [x, y]" by (rule hex_min_two)
  have "x \<noteq> CHR ''-''" using hex_min_plain [of 2 "unat b"] by (auto simp: d plain_def)
  moreover have "read_hex [x, y] = unat b" using read_hex_min [of 2 "unat b"] by (simp add: d)
  ultimately show ?case using 3 by (simp add: d)
qed simp_all

lemma newline_other: "newline \<noteq> CHR '' ''" "newline \<noteq> CHR ''-''" "newline \<noteq> CHR '':''" "newline \<noteq> CHR ''*''"
  by (simp_all add: newline_def)

lemma hex_text_newline: "newline \<notin> set (hex_text k bs)"
  by (induction k bs rule: hex_text.induct)
    (use hex_min_plain newline_other in \<open>auto simp: plain_def\<close>)

lemma SAFE_newline: "SAFE c \<noteq> newline"
proof (cases "32 \<le> c \<and> c \<le> 126")
  case True
  then have c: "32 \<le> unat c" "unat c \<le> 126" by (simp_all add: word_le_nat_alt)
  have "char_of (unat c) \<noteq> newline"
  proof
    assume "char_of (unat c) = newline"
    then have "of_char (char_of (unat c)) = (10 :: nat)" by (simp add: newline_def)
    then show False using c by simp
  qed
  then show ?thesis using True by (simp add: SAFE_def)
qed (auto simp: SAFE_def newline_def)

definition line_text :: "char \<times> nat \<times> u8 list \<Rightarrow> string" where
  "line_text l = (case l of (m, a, bs) \<Rightarrow> hex_min 8 a @ [m] @ hex_text 16 bs @ ''  '' @ map SAFE bs)"

definition line_ok :: "char \<times> nat \<times> u8 list \<Rightarrow> bool" where
  "line_ok l = (case l of (m, a, bs) \<Rightarrow> m \<in> {CHR '':'', CHR ''*''} \<and> length bs \<le> 16)"

lemma address_part_plain: "plain s \<Longrightarrow> m \<in> {CHR '':'', CHR ''*''} \<Longrightarrow> address_part (s @ m # t) = s"
  unfolding address_part_def plain_def by (induction s) auto

lemma read_line_text: "line_ok l \<Longrightarrow> read_line (line_text l) = snd l"
  by (auto simp: line_ok_def line_text_def read_line_def Let_def address_part_plain hex_min_plain read_bytes_text
      split: prod.splits)

lemma line_text_newline: "line_ok l \<Longrightarrow> newline \<notin> set (line_text l)"
  using hex_min_plain [of 8] hex_text_newline [of 16] SAFE_newline newline_other
  by (auto simp: line_ok_def line_text_def plain_def split: prod.splits) metis+

lemma split_lines_append:
  "newline \<notin> set l \<Longrightarrow> split_lines acc (l @ newline # s) = (acc @ l) # split_lines [] s"
  by (induction l arbitrary: acc) auto

lemma split_lines_concat:
  "\<forall>l \<in> set ls. newline \<notin> set l \<Longrightarrow> split_lines [] (concat (map (\<lambda>l. l @ [newline]) ls)) = ls"
  by (induction ls) (simp_all add: split_lines_append)

section \<open>Putting the lines together\<close>

lemma expand_snoc: "expand (rs @ [(a, bs)]) n = expand rs a @ repeated bs (n - a)"
  by (induction rs a rule: expand.induct) auto

lemma repeated_once: "m \<le> length bs \<Longrightarrow> repeated bs m = take m bs"
  by (cases m) (simp_all add: repeated_def)

lemma concat_replicate_length: "length (concat (replicate k bs)) = k * length bs"
  by (induction k) auto

lemma repeated_times: "length bs = 16 \<Longrightarrow> repeated bs (16 * q) = concat (replicate q bs)"
proof -
  assume l: "length bs = 16"
  have "replicate (16 * q) bs = replicate q bs @ replicate (15 * q) bs" by (simp flip: replicate_add)
  then show ?thesis using l by (simp add: repeated_def concat_replicate_length)
qed

lemma repeated_more: "length bs = 16 \<Longrightarrow> 16 dvd m \<Longrightarrow> repeated bs (m + 16) = repeated bs m @ bs"
proof (elim dvdE)
  fix q
  assume l: "length bs = 16" and m: "m = 16 * q"
  have "repeated bs (16 * Suc q) = concat (replicate (Suc q) bs)" by (rule repeated_times [OF l])
  also have "\<dots> = concat (replicate q bs) @ bs" by (simp flip: replicate_append_same)
  finally show ?thesis using repeated_times [OF l, of q] m by (simp add: add.commute)
qed

section \<open>What the loop prints\<close>

lemma runs_print [simp]: "runs (print s) out Q = Q () (out @ s)"
  by (simp add: print_def)

lemma runs_bytes_at [simp]:
  "k + n \<le> length buf \<Longrightarrow> runs (bytes_at buf (int k) (int n)) out Q = Q (take n (drop k buf)) out"
  by (simp add: bytes_at_def)

definition line_at :: "u8 list \<Rightarrow> nat \<Rightarrow> nat \<Rightarrow> u8 list" where
  "line_at buf sz k = take 16 (drop k (take sz buf))"

lemma length_line_at [simp]: "sz \<le> length buf \<Longrightarrow> length (line_at buf sz k) = min 16 (sz - k)"
  by (simp add: line_at_def)

lemma nth_line_at: "sz \<le> length buf \<Longrightarrow> j < 16 \<Longrightarrow> j < sz - k \<Longrightarrow> line_at buf sz k ! j = buf ! (k + j)"
  by (simp add: line_at_def)

lemma full_line_at: "k + 16 \<le> sz \<Longrightarrow> line_at buf sz k = take 16 (drop k buf)"
  by (simp add: line_at_def drop_take)

lemma dump_hex_runs:
  assumes "sz \<le> length buf" and "k < sz"
  shows "runs (dump_hex buf (int sz - int k) (int k)) out (\<lambda>_ out'. out' = out @ hex_text 16 (line_at buf sz k))"
proof -
  let ?f = "\<lambda>j. if j < length (line_at buf sz k) then '' '' @ hex_min 2 (unat (line_at buf sz k ! j)) else '' --''"
  have "runs (dump_hex buf (int sz - int k) (int k)) out (\<lambda>_ out'. out' = out @ concat (map ?f [0..<16]))"
    unfolding dump_hex_def WIDE_def
    by (rule runs_forM_upt [where I = "\<lambda>j out'. out' = out @ concat (map ?f [0..<j])", THEN runs_weaken])
      (use assms in \<open>auto simp: nth_line_at\<close>)
  then show ?thesis by (simp only: hex_text_map)
qed

lemma dump_ascii_runs:
  assumes "sz \<le> length buf" and "k < sz"
  shows "runs (dump_ascii buf (int sz - int k) (int k)) out (\<lambda>_ out'. out' = out @ map SAFE (line_at buf sz k))"
  unfolding dump_ascii_def WIDE_def
  by (rule runs_forM_upt [where I = "\<lambda>j out'. out' = out @ map SAFE (take j (line_at buf sz k))", THEN runs_weaken])
    (use assms in \<open>auto simp: nth_line_at take_Suc_conv_app_nth\<close>)

lemma dump_address_runs:
  assumes "sz \<le> length buf" and "k < sz" and "sz < 2 ^ 64"
  shows "runs (dump_address buf (int sz - int k) (int k)) out (\<lambda>shown out'.
    if shown then \<exists>m \<in> {CHR '':'', CHR ''*''}. out' = out @ hex_min 8 k @ [m]
    else out' = out \<and> 16 \<le> k \<and> k + 16 \<le> sz \<and> line_at buf sz k = line_at buf sz (k - 16))"
proof -
  have h: "hex_long (int k) = hex_min 8 k"
    using assms by (simp add: hex_long_def nat_mod_distrib)
  show ?thesis
    unfolding dump_address_def FULL_def WIDE_def memcmp_eq_def
    using assms h by (auto simp: full_line_at bytes_at_def nat_diff_distrib)
qed

lemma dump_step_runs:
  assumes "sz \<le> length buf" and "k < sz" and "sz < 2 ^ 64"
  shows "runs (dump_step buf (int sz) (int k)) out (\<lambda>_ out'.
    (\<exists>m \<in> {CHR '':'', CHR ''*''}. out' = out @ line_text (m, k, line_at buf sz k) @ [newline])
    \<or> (out' = out \<and> 16 \<le> k \<and> k + 16 \<le> sz \<and> line_at buf sz k = line_at buf sz (k - 16)))"
  unfolding dump_step_def Let_def runs_mbind
proof (rule runs_weaken [OF dump_address_runs [OF assms]], goal_cases)
  case (1 shown out')
  then show ?case
    by (auto split: if_splits simp: line_text_def intro!: runs_weaken [OF dump_hex_runs [OF assms(1,2)]]
        runs_weaken [OF dump_ascii_runs [OF assms(1,2)]])
qed

text \<open>Up to index \<open>k\<close> the lines printed stand for the buffer.\<close>

definition lines_text :: "(char \<times> nat \<times> u8 list) list \<Rightarrow> string" where
  "lines_text ls = concat (map (\<lambda>l. line_text l @ [newline]) ls)"

definition dumped :: "u8 list \<Rightarrow> nat \<Rightarrow> nat \<Rightarrow> string \<Rightarrow> bool" where
  "dumped buf sz k out \<longleftrightarrow> 16 dvd k \<and> (\<exists>ls. out = lines_text ls \<and> list_all line_ok ls
     \<and> expand (map snd ls) (min k sz) = take (min k sz) buf
     \<and> (k \<noteq> 0 \<longrightarrow> k \<le> sz \<longrightarrow> (\<exists>ls0 m a. ls = ls0 @ [(m, a, line_at buf sz (k - 16))] \<and> a < k \<and> 16 dvd a)))"

lemma dumped_start: "dumped buf sz 0 []"
  by (auto simp: dumped_def lines_text_def intro!: exI [of _ "[]"])

lemma dumped_shown:
  assumes "dumped buf sz k out" and "k < sz" and "sz \<le> length buf" and "m \<in> {CHR '':'', CHR ''*''}"
  shows "dumped buf sz (k + 16) (out @ line_text (m, k, line_at buf sz k) @ [newline])"
proof -
  obtain ls where ls: "16 dvd k" "out = lines_text ls" "list_all line_ok ls" "expand (map snd ls) k = take k buf"
    using assms(1,2) by (auto simp: dumped_def)
  define l where "l = (m, k, line_at buf sz k)"
  have "expand (map snd (ls @ [l])) (min (k + 16) sz) = take k buf @ repeated (line_at buf sz k) (min (k + 16) sz - k)"
    using ls(4) by (simp add: expand_snoc l_def)
  also have "repeated (line_at buf sz k) (min (k + 16) sz - k) = line_at buf sz k"
    using assms(3) by (subst repeated_once) (auto simp: min_def)
  also have "take k buf @ line_at buf sz k = take (min (k + 16) sz) buf"
    using assms(2) by (simp add: line_at_def drop_take take_add [symmetric] min_def)
  finally have "expand (map snd (ls @ [l])) (min (k + 16) sz) = take (min (k + 16) sz) buf" .
  moreover have "line_ok l" using assms(3,4) by (simp add: l_def line_ok_def)
  moreover have "16 dvd k + 16" using ls(1) by simp
  ultimately show ?thesis
    unfolding dumped_def l_def [symmetric] using ls
    by (intro conjI exI [of _ "ls @ [l]"]) (auto simp: lines_text_def l_def)
qed

lemma dumped_skipped:
  assumes "dumped buf sz k out" and "sz \<le> length buf" and "16 \<le> k" and "k + 16 \<le> sz"
    and "line_at buf sz k = line_at buf sz (k - 16)"
  shows "dumped buf sz (k + 16) out"
proof -
  obtain ls ls0 m a where ls: "16 dvd k" "out = lines_text ls" "list_all line_ok ls" "expand (map snd ls) k = take k buf"
    "ls = ls0 @ [(m, a, line_at buf sz (k - 16))]" "a < k" "16 dvd a"
    using assms(1,3,4) by (auto simp: dumped_def)
  define bs where "bs = line_at buf sz (k - 16)"
  have bs: "length bs = 16" "line_at buf sz k = bs" using assms by (simp_all add: bs_def)
  have "16 dvd k - a" using ls(1,7) by (rule dvd_diff_nat)
  then have r: "repeated bs (k - a + 16) = repeated bs (k - a) @ bs" by (rule repeated_more [OF bs(1)])
  have "expand (map snd ls) (k + 16) = expand (map snd ls0) a @ repeated bs (k - a + 16)"
    using ls(6) by (simp add: ls(5) expand_snoc bs_def)
  also have "\<dots> = expand (map snd ls) k @ bs"
    unfolding r by (simp add: ls(5) expand_snoc bs_def)
  also have "\<dots> = take k buf @ line_at buf sz k" using ls(4) bs(2) by simp
  also have "\<dots> = take (k + 16) buf"
    using assms(4) by (simp add: full_line_at take_add)
  finally have "expand (map snd ls) (min (k + 16) sz) = take (min (k + 16) sz) buf"
    using assms(4) by simp
  moreover have "16 dvd k + 16" using ls(1) by simp
  moreover have "ls = ls0 @ [(m, a, line_at buf sz (k + 16 - 16))]" using ls(5) bs(2) by (simp add: bs_def)
  ultimately show ?thesis
    unfolding dumped_def using ls(2,3,6,7) by (intro conjI exI [of _ ls]) auto
qed

lemma dump_lines_runs:
  assumes "sz \<le> length buf" and "sz < 2 ^ 64" and "dumped buf sz k out"
  shows "runs (dump_lines buf (int sz) (int k)) out (\<lambda>_ out'. \<exists>k'. sz \<le> k' \<and> dumped buf sz k' out')"
  using assms(3)
proof (induction "sz - k" arbitrary: k out rule: less_induct)
  case less
  show ?case
  proof (cases "k < sz")
    case False
    then show ?thesis using less.prems by (subst dump_lines.simps) (auto intro!: exI [of _ k])
  next
    case True
    have "runs (dump_step buf (int sz) (int k)) out (\<lambda>_ out'. dumped buf sz (k + 16) out')"
      by (rule runs_weaken [OF dump_step_runs [OF assms(1) True assms(2)]])
        (use dumped_shown [OF less.prems True assms(1)] dumped_skipped [OF less.prems assms(1)] in blast)
    then have "runs (dump_step buf (int sz) (int k)) out (\<lambda>_ out'.
        runs (dump_lines buf (int sz) (int (k + 16))) out' (\<lambda>_ out'. \<exists>k'. sz \<le> k' \<and> dumped buf sz k' out'))"
      by (rule runs_weaken) (use True in \<open>intro less.hyps; simp\<close>)
    then show ?thesis using True by (subst dump_lines.simps) (simp add: WIDE_def add.commute)
  qed
qed

definition trailer :: "int \<Rightarrow> string" where
  "trailer sz = hex_long sz @ '': end ('' @ dec_long sz @ '' bytes) mtime '' @ dec_long 0"

lemma dec_digits_newline: "newline \<notin> set (dec_digits n)"
proof (induction n rule: dec_digits.induct)
  case (1 n)
  have "n mod 10 < 16" by (rule less_trans [OF mod_less_divisor]) simp_all
  then show ?case
    using 1 hex_char_other [of n] hex_char_other [of "n mod 10"] by (subst dec_digits.simps) auto
qed

lemma trailer_facts:
  assumes "sz < 2 ^ 64"
  shows "newline \<notin> set (trailer (int sz))" and "read_hex (address_part (trailer (int sz))) = sz"
proof -
  have h: "hex_long (int sz) = hex_min 8 sz"
    using assms by (simp add: hex_long_def nat_mod_distrib)
  show "newline \<notin> set (trailer (int sz))"
    using hex_min_plain [of 8 sz] dec_digits_newline
    by (auto simp: trailer_def h plain_def dec_long_def) (auto simp: newline_def)
  show "read_hex (address_part (trailer (int sz))) = sz"
    using address_part_plain [OF hex_min_plain, of "CHR '':''" 8 sz] by (simp add: trailer_def h)
qed

lemma undump_lines:
  assumes "list_all line_ok ls" and "sz < 2 ^ 64"
  shows "undump (lines_text ls @ trailer (int sz) @ [newline]) = expand (map snd ls) sz"
proof -
  have e: "lines_text ls @ trailer (int sz) @ [newline]
      = concat (map (\<lambda>l. l @ [newline]) (map line_text ls @ [trailer (int sz)]))"
    by (simp add: lines_text_def comp_def)
  have "\<forall>l \<in> set (map line_text ls @ [trailer (int sz)]). newline \<notin> set l"
    using assms(1) line_text_newline trailer_facts(1) [OF assms(2)] by (auto simp: list_all_iff)
  then have s: "split_lines [] (lines_text ls @ trailer (int sz) @ [newline]) = map line_text ls @ [trailer (int sz)]"
    unfolding e by (rule split_lines_concat)
  have "map read_line (map line_text ls) = map snd ls"
    using assms(1) read_line_text by (auto simp: list_all_iff)
  then show ?thesis by (simp add: undump_def s trailer_facts(2) [OF assms(2)] del: map_map)
qed

lemma hex_dump_runs:
  assumes "sz \<le> length buf" and "sz < 2 ^ 64"
  shows "runs (hex_dump buf (int sz)) [] (\<lambda>_ out. undump out = take sz buf)"
proof -
  have l: "runs (dump_lines buf (int sz) 0) [] (\<lambda>_ out. \<exists>k. sz \<le> k \<and> dumped buf sz k out)"
    using dump_lines_runs [OF assms dumped_start] by simp
  have "undump (out @ trailer (int sz) @ [newline]) = take sz buf" if k: "sz \<le> k" "dumped buf sz k out" for out k
  proof -
    obtain ls where "out = lines_text ls" "list_all line_ok ls" "expand (map snd ls) sz = take sz buf"
      using k(2) unfolding dumped_def min_absorb2 [OF k(1)] by blast
    then show ?thesis using undump_lines [OF _ assms(2), of ls] by simp
  qed
  then show ?thesis
    unfolding hex_dump_def runs_mthen
    by (intro runs_weaken [OF l]) (auto simp: trailer_def)
qed

section \<open>The log stream\<close>

text \<open>
  A \<open>NewLineStream\<close> object is its pointer to a string buffer on the heap; the text of a value is a
  parameter, as is the address \<open>new\<close> returns. Deleting the object prints the buffer and a newline.
\<close>

record log_state =
  string_buffers :: "u64 \<rightharpoonup> string"
  log_text :: string

definition NewLineStream_new :: "(log_state \<Rightarrow> u64) \<Rightarrow> string \<Rightarrow> (log_state, u64) prog" where
  "NewLineStream_new new t =
     mbind (get_state new) (\<lambda>b.
     mthen (modify (\<lambda>g. g\<lparr>string_buffers := (string_buffers g)(b \<mapsto> t)\<rparr>)) (ret b))"

definition NewLineStream_append :: "string \<Rightarrow> u64 \<Rightarrow> (log_state, u64) prog" where
  "NewLineStream_append t b =
     mbind (get_state (\<lambda>g. string_buffers g b)) (\<lambda>buf.
     case buf of None \<Rightarrow> crash_with Bad_Pointer
     | Some s \<Rightarrow> mthen (modify (\<lambda>g. g\<lparr>string_buffers := (string_buffers g)(b \<mapsto> s @ t)\<rparr>)) (ret b))"

definition NewLineStream_delete :: "u64 \<Rightarrow> (log_state, u64) prog" where
  "NewLineStream_delete b =
     (if b \<noteq> 0 then
        mbind (get_state (\<lambda>g. string_buffers g b)) (\<lambda>buf.
        case buf of None \<Rightarrow> crash_with Bad_Pointer
        | Some s \<Rightarrow> mthen (modify (\<lambda>g. g\<lparr>log_text := log_text g @ s @ [newline],
              string_buffers := (string_buffers g)(b := None)\<rparr>)) (ret 0))
      else ret b)"

text \<open>\<open>NewLine << t\<close> makes a stream; the statement \<open>object << t << u << \<dots>\<close> ends with its destructor.\<close>

definition NewLine_shift :: "(log_state \<Rightarrow> u64) \<Rightarrow> string \<Rightarrow> (log_state, u64) prog" where
  "NewLine_shift new t = NewLineStream_new new t"

definition log_statement :: "(log_state \<Rightarrow> u64) \<Rightarrow> string \<Rightarrow> string list \<Rightarrow> (log_state, u64) prog" where
  "log_statement new t us =
     mbind (NewLine_shift new t) (\<lambda>b. mbind (foldM NewLineStream_append us b) NewLineStream_delete)"

lemma runs_append:
  "string_buffers g b = Some s \<Longrightarrow> runs (NewLineStream_append t b) g Q
    = Q b (g\<lparr>string_buffers := (string_buffers g)(b \<mapsto> s @ t)\<rparr>)"
  by (simp add: NewLineStream_append_def)

lemma append_runs:
  "string_buffers g b = Some s \<Longrightarrow>
    runs (foldM NewLineStream_append us b) g (\<lambda>b' g'. b' = b
      \<and> g' = g\<lparr>string_buffers := (string_buffers g)(b \<mapsto> s @ concat us)\<rparr>)"
proof (induction us arbitrary: g s)
  case Nil
  then show ?case by (cases g) (auto simp: fun_upd_idem)
next
  case (Cons u us)
  let ?g = "g\<lparr>string_buffers := (string_buffers g)(b \<mapsto> s @ u)\<rparr>"
  have ih: "runs (foldM NewLineStream_append us b) ?g (\<lambda>b' g'. b' = b
      \<and> g' = ?g\<lparr>string_buffers := (string_buffers ?g)(b \<mapsto> (s @ u) @ concat us)\<rparr>)"
    by (rule Cons.IH) simp
  show ?case
    unfolding foldM.simps runs_mbind runs_append [OF Cons.prems] by (rule runs_weaken [OF ih]) simp
qed

text \<open>A log statement prints one line and frees its buffer.\<close>

lemma log_statement_runs:
  assumes "new g \<noteq> 0" and "string_buffers g (new g) = None"
  shows "runs (log_statement new t us) g (\<lambda>_ g'.
    g' = g\<lparr>log_text := log_text g @ t @ concat us @ [newline]\<rparr>)"
proof -
  let ?g = "g\<lparr>string_buffers := (string_buffers g)(new g \<mapsto> t)\<rparr>"
  have "runs (foldM NewLineStream_append us (new g)) ?g (\<lambda>b' g'. b' = new g
      \<and> g' = ?g\<lparr>string_buffers := (string_buffers ?g)(new g \<mapsto> t @ concat us)\<rparr>)"
    by (rule append_runs) simp
  then have "runs (foldM NewLineStream_append us (new g)) ?g (\<lambda>b' g'. runs (NewLineStream_delete b') g'
      (\<lambda>_ g'. g' = g\<lparr>log_text := log_text g @ t @ concat us @ [newline]\<rparr>))"
    by (rule runs_weaken) (use assms in \<open>auto simp: NewLineStream_delete_def fun_upd_idem\<close>)
  then show ?thesis by (simp add: log_statement_def NewLine_shift_def NewLineStream_new_def)
qed

text \<open>
  The class has no copy constructor of its own: if the compiler copies the object that
  \<open>NewLine << t\<close> returns, destroying the original leaves the copy with a freed buffer.
\<close>

lemma copied_stream_crashes:
  assumes "new g \<noteq> 0"
  shows "mbind (NewLine_shift new t) (\<lambda>b. mbind (NewLineStream_delete b) (\<lambda>_. NewLineStream_delete b)) g
    = Inl Bad_Pointer"
  using assms
  by (simp add: NewLine_shift_def NewLineStream_new_def NewLineStream_delete_def prog_defs)

end
