(* ===== verification/RegRw.thy ===== *)
theory RegRw
  imports LogUtils
begin

text \<open>
  The register access tool \<^verbatim>\<open>app/reg_rw.c\<close>: command line, number parsing, and the read or
  write of one register through the mapped device. The process state is the mapped memory, whether
  the device is open and mapped, and what was printed. The byte order of the host is a parameter.
\<close>

section \<open>Characters and numbers of the command line\<close>

definition ascii :: "char \<Rightarrow> nat" where
  "ascii c = of_char c"

definition tolower_c :: "char \<Rightarrow> char" where
  "tolower_c c = (if 65 \<le> ascii c \<and> ascii c \<le> 90 then char_of (ascii c + 32) else c)"

definition isspace :: "char \<Rightarrow> bool" where
  "isspace c \<longleftrightarrow> ascii c = 32 \<or> (9 \<le> ascii c \<and> ascii c \<le> 13)"

definition digit_of :: "char \<Rightarrow> nat option" where
  "digit_of c =
     (if 48 \<le> ascii c \<and> ascii c \<le> 57 then Some (ascii c - 48)
      else if 97 \<le> ascii (tolower_c c) \<and> ascii (tolower_c c) \<le> 122 then Some (ascii (tolower_c c) - 87)
      else None)"

fun digits_val :: "nat \<Rightarrow> string \<Rightarrow> nat \<Rightarrow> nat" where
  "digits_val b [] acc = acc"
| "digits_val b (c # cs) acc =
     (case digit_of c of None \<Rightarrow> acc
      | Some d \<Rightarrow> if d < b then digits_val b cs (acc * b + d) else acc)"

text \<open>The base that \<open>strtoul(s, 0, 0)\<close> chooses, and the text after a prefix that counts.\<close>

fun base_prefix :: "string \<Rightarrow> nat \<times> string" where
  "base_prefix (a # x # h # cs) =
     (if a = CHR ''0'' \<and> tolower_c x = CHR ''x'' \<and> (\<exists>d \<in> set_option (digit_of h). d < 16) then (16, h # cs)
      else if a = CHR ''0'' then (8, a # x # h # cs) else (10, a # x # h # cs))"
| "base_prefix (a # cs) = (if a = CHR ''0'' then (8, a # cs) else (10, a # cs))"
| "base_prefix [] = (10, [])"

definition strtoul :: "string \<Rightarrow> u64" where
  "strtoul s =
     (let s = dropWhile isspace s;
          (neg, s) = (case s of [] \<Rightarrow> (False, s)
            | c # cs \<Rightarrow> if c = CHR ''-'' then (True, cs) else if c = CHR ''+'' then (False, cs) else (False, s));
          (b, s) = base_prefix s;
          v = digits_val b s 0
      in if v \<ge> 2 ^ 64 then - 1 else if neg then - of_nat v else of_nat v)"

section \<open>Byte order\<close>

definition bswap_32 :: "u32 \<Rightarrow> u32" where
  "bswap_32 x = push_bit 24 (x AND 0xff) OR push_bit 8 (x AND 0xff00)
     OR (drop_bit 8 x AND 0xff00) OR (drop_bit 24 x AND 0xff)"

definition bswap_16 :: "u16 \<Rightarrow> u16" where
  "bswap_16 x = push_bit 8 (x AND 0xff) OR (drop_bit 8 x AND 0xff)"

text \<open>\<open>big\<close> says that the host is big-endian.\<close>

definition ltohl :: "bool \<Rightarrow> u32 \<Rightarrow> u32" where
  "ltohl big x = (if big then bswap_32 x else x)"

definition ltohs :: "bool \<Rightarrow> u32 \<Rightarrow> u32" where
  "ltohs big x = (if big then ucast (bswap_16 (ucast x)) else x)"

definition htoll :: "bool \<Rightarrow> u32 \<Rightarrow> u32" where
  "htoll big x = (if big then bswap_32 x else x)"

definition htols :: "bool \<Rightarrow> u32 \<Rightarrow> u32" where
  "htols big x = (if big then ucast (bswap_16 (ucast x)) else x)"

text \<open>Loads and stores of the host, as bytes in address order.\<close>

fun le_val :: "u8 list \<Rightarrow> u32" where
  "le_val [] = 0"
| "le_val (b # bs) = ucast b OR push_bit 8 (le_val bs)"

fun le_bytes :: "nat \<Rightarrow> u32 \<Rightarrow> u8 list" where
  "le_bytes 0 x = []"
| "le_bytes (Suc n) x = ucast x # le_bytes n (drop_bit 8 x)"

definition host_val :: "bool \<Rightarrow> u8 list \<Rightarrow> u32" where
  "host_val big bs = le_val (if big then rev bs else bs)"

definition host_bytes :: "bool \<Rightarrow> nat \<Rightarrow> u32 \<Rightarrow> u8 list" where
  "host_bytes big n x = (if big then rev (le_bytes n x) else le_bytes n x)"

section \<open>The process\<close>

definition MAP_SIZE :: nat where
  "MAP_SIZE = 512 * 1024"

text \<open>What the program prints, one constructor for each format, with the arguments of the call.\<close>

datatype message =
    Usage string \<comment> \<open>program\<close>
  | Argc nat
  | Device string
  | Address u32
  | Access_Type string
  | Width_Given
  | Width char
  | Fatal nat string int string \<comment> \<open>line, file, error number and its text\<close>
  | Opened string
  | Mapped_At u64
  | Read_Value nat u32 u64 u32 \<comment> \<open>bytes, target, address, value\<close>
  | Write_Value nat u32 u32 u64 \<comment> \<open>bytes, value, target, address\<close>
  | Illegal_Type char

record process =
  mem :: "nat \<Rightarrow> u8"
  fd_open :: bool
  mapped :: bool
  out :: "message list"

record environment =
  open_ok :: bool
  mmap_ok :: bool
  munmap_ok :: bool
  big_endian :: bool
  map_base :: u64
  this_file :: string \<comment> \<open>\<open>__FILE__\<close>\<close>
  failure :: "nat \<Rightarrow> int \<times> string" \<comment> \<open>error number and text of the call that fails in a line\<close>

definition say :: "message \<Rightarrow> (process, unit) prog" where
  "say x = modify (\<lambda>p. p\<lparr>out := out p @ [x]\<rparr>)"

text \<open>The macro \<open>FATAL\<close> in a line of the source.\<close>

definition fatal :: "environment \<Rightarrow> nat \<Rightarrow> (process, int) prog" where
  "fatal env line = mthen (say (case failure env line of (e, s) \<Rightarrow> Fatal line (this_file env) e s)) (ret 1)"

text \<open>An access outside the mapped area is an error of the process.\<close>

definition load :: "nat \<Rightarrow> u64 \<Rightarrow> (process, u8 list) prog" where
  "load n a p = (if mapped p \<and> unat a + n \<le> MAP_SIZE then Inr (map (\<lambda>i. mem p (unat a + i)) [0..<n], p)
     else Inl Out_Of_Bounds)"

definition put_bytes :: "nat \<Rightarrow> u8 list \<Rightarrow> (nat \<Rightarrow> u8) \<Rightarrow> nat \<Rightarrow> u8" where
  "put_bytes a bs m k = (if a \<le> k \<and> k < a + length bs then bs ! (k - a) else m k)"

definition store :: "u64 \<Rightarrow> u8 list \<Rightarrow> (process, unit) prog" where
  "store a bs p = (if mapped p \<and> unat a + length bs \<le> MAP_SIZE
     then Inr ((), p\<lparr>mem := put_bytes (unat a) bs (mem p)\<rparr>) else Inl Out_Of_Bounds)"

text \<open>
  The read of \<open>main\<close>. The result is the value the program returns at once, if it does so there;
  it exits with status 2 for an access width it does not know.
\<close>

definition read_access :: "bool \<Rightarrow> u64 \<Rightarrow> char \<Rightarrow> u64 \<Rightarrow> (process, int option) prog" where
  "read_access big base width target =
     (let virt = base + target; shown = ucast target in
      if width = CHR ''b'' then
        mbind (load 1 target) (\<lambda>bs.
        mthen (say (Read_Value 1 shown virt (host_val big bs))) (ret None))
      else if width = CHR ''h'' then
        mbind (load 2 target) (\<lambda>bs.
        mthen (say (Read_Value 2 shown virt (ltohs big (host_val big bs)))) (ret None))
      else if width = CHR ''w'' then
        mbind (load 4 target) (\<lambda>bs.
        mthen (say (Read_Value 4 shown virt (ltohl big (host_val big bs))))
        (ret (Some (sint (ltohl big (host_val big bs))))))
      else mthen (say (Illegal_Type width)) (ret (Some 2)))"

definition write_access :: "bool \<Rightarrow> u64 \<Rightarrow> char \<Rightarrow> u64 \<Rightarrow> u32 \<Rightarrow> (process, unit) prog" where
  "write_access big base width target writeval =
     (let virt = base + target; shown = ucast target in
      if width = CHR ''b'' then
        mthen (say (Write_Value 1 writeval shown virt)) (store target (host_bytes big 1 writeval))
      else if width = CHR ''h'' then
        mthen (say (Write_Value 2 writeval shown virt)) (store target (host_bytes big 2 (htols big writeval)))
      else if width = CHR ''w'' then
        mthen (say (Write_Value 4 writeval shown virt)) (store target (host_bytes big 4 (htoll big writeval)))
      else ret ())"

definition access_width_of :: "string list \<Rightarrow> char" where
  "access_width_of argv =
     (let w = (if length argv \<ge> 4 then (case argv ! 3 of [] \<Rightarrow> CHR 0x00 | c # _ \<Rightarrow> tolower_c c) else CHR ''w'')
      in if w = CHR ''b'' \<or> w = CHR ''h'' \<or> w = CHR ''w'' then w else CHR ''w'')"

text \<open>What is printed before the device is opened.\<close>

definition greet :: "string list \<Rightarrow> u64 \<Rightarrow> char \<Rightarrow> (process, unit) prog" where
  "greet argv target width =
     (let argc = length argv in
      mthen (say (Argc argc))
      (mthen (say (Device (argv ! 1)))
      (mthen (say (Address (ucast target)))
      (mthen (say (Access_Type (if argc \<ge> 4 then ''write'' else ''read'')))
      (mthen (if argc \<ge> 4 then say Width_Given else ret ())
      (say (Width width)))))))"

text \<open>\<open>main\<close>: the result is the exit status of the process.\<close>

definition reg_rw :: "environment \<Rightarrow> string list \<Rightarrow> (process, int) prog" where
  "reg_rw env argv =
     (let argc = length argv in
      if argc < 3 then mthen (say (Usage (case argv of [] \<Rightarrow> ''(null)'' | a # _ \<Rightarrow> a))) (ret 1)
      else
        let target = strtoul (argv ! 2); width = access_width_of argv in
        mthen (greet argv target width)
        (if \<not> open_ok env then fatal env 85
         else
           mthen (modify (\<lambda>p. p\<lparr>fd_open := True\<rparr>))
           (mthen (say (Opened (argv ! 1)))
           (if \<not> mmap_ok env then fatal env 91
            else
              mthen (modify (\<lambda>p. p\<lparr>mapped := True\<rparr>))
              (mthen (say (Mapped_At (map_base env)))
              (mbind (if argc \<le> 4 then read_access (big_endian env) (map_base env) width target else ret None) (\<lambda>r.
               case r of Some rc \<Rightarrow> ret rc
               | None \<Rightarrow>
                   mthen (if argc \<ge> 5
                          then write_access (big_endian env) (map_base env) width target (ucast (strtoul (argv ! 4)))
                          else ret ())
                   (if \<not> munmap_ok env then fatal env 167
                    else
                      mthen (modify (\<lambda>p. p\<lparr>mapped := False\<rparr>))
                      (mthen (modify (\<lambda>p. p\<lparr>fd_open := False\<rparr>)) (ret 0))))))))))"

section \<open>Byte order conversions are what they should be\<close>

lemma length_le_bytes [simp]: "length (le_bytes n x) = n"
  by (induction n arbitrary: x) auto

lemma le_val_bytes:
  assumes "n \<le> 4"
  shows "le_val (le_bytes n x) = take_bit (8 * n) x"
proof -
  have "le_val (le_bytes n x) = take_bit (8 * n) x" if "n \<le> 4" for x
    using that
  proof (induction n arbitrary: x)
    case (Suc n)
    have "ucast (ucast x :: u8) OR push_bit 8 (take_bit (8 * n) (drop_bit 8 x)) = take_bit (8 * Suc n) x"
      using Suc.prems by (intro bit_word_eqI) (auto simp: bit_simps)
    then show ?case using Suc by simp
  qed simp
  then show ?thesis using assms by simp
qed

lemma len4: "length bs = 4 \<Longrightarrow> \<exists>a b c d. bs = [a, b, c, d]"
  by (simp add: numeral_eq_Suc length_Suc_conv) blast

lemma len2: "length bs = 2 \<Longrightarrow> \<exists>a b. bs = [a, b]"
  by (simp add: numeral_eq_Suc length_Suc_conv) blast

lemma swap_val_32:
  assumes "length bs = 4"
  shows "bswap_32 (le_val (rev bs)) = le_val bs"
proof -
  have m: "(0xff :: u32) = mask 8" "(0xff00 :: u32) = push_bit 8 (mask 8)"
    by (simp_all add: mask_eq_exp_minus_1)
  obtain a b c d where bs: "bs = [a, b, c, d]" using len4 [OF assms] by blast
  have "bit (bswap_32 (le_val (rev bs))) n = bit (le_val bs) n" if "n < 32" for n
  proof -
    have "n < 8 \<or> 8 \<le> n \<and> n < 16 \<or> 16 \<le> n \<and> n < 24 \<or> 24 \<le> n \<and> n < 32" using that by linarith
    then show ?thesis
      unfolding bs bswap_32_def m by (elim disjE) (auto simp: bit_simps dest: bit_imp_le_length)
  qed
  then show ?thesis by (intro bit_word_eqI) simp
qed

lemma swap_val_16:
  assumes "length bs = 2"
  shows "ucast (bswap_16 (ucast (le_val (rev bs)))) = le_val bs"
proof -
  have m: "(0xff :: u16) = mask 8"
    by (simp add: mask_eq_exp_minus_1)
  obtain a b where bs: "bs = [a, b]" using len2 [OF assms] by blast
  show ?thesis
    unfolding bs bswap_16_def m by (intro bit_word_eqI) (auto simp: bit_simps dest: bit_imp_le_length)
qed

lemma le_bytes_take: "8 * n \<le> m \<Longrightarrow> le_bytes n (take_bit m v) = le_bytes n v"
proof (induction n arbitrary: m v)
  case (Suc n)
  have "ucast (take_bit m v) = (ucast v :: u8)"
    using Suc.prems by (intro bit_word_eqI) (auto simp: bit_simps)
  moreover have "drop_bit 8 (take_bit m v) = take_bit (m - 8) (drop_bit 8 v)"
    by (rule bit_word_eqI) (auto simp: bit_simps)
  ultimately show ?case using Suc by simp
qed simp

lemma le_bytes_val: "length bs \<le> 4 \<Longrightarrow> le_bytes (length bs) (le_val bs) = bs"
proof (induction bs)
  case (Cons b bs)
  have "ucast (ucast b OR push_bit 8 (le_val bs)) = b"
    by (intro bit_word_eqI) (auto simp: bit_simps)
  moreover have "drop_bit 8 (ucast b OR push_bit 8 (le_val bs)) = take_bit 24 (le_val bs)"
    by (intro bit_word_eqI) (auto simp: bit_simps dest: bit_imp_le_length)
  ultimately show ?case using Cons by (simp add: le_bytes_take)
qed simp

lemma swap_bytes_32: "rev (le_bytes 4 (bswap_32 x)) = le_bytes 4 x"
proof -
  have "le_val (le_bytes 4 x) = x" by (simp add: le_val_bytes take_bit_word_eq_self)
  then have "bswap_32 x = le_val (rev (le_bytes 4 x))"
    using swap_val_32 [of "rev (le_bytes 4 x)"] by simp
  then show ?thesis using le_bytes_val [of "rev (le_bytes 4 x)"] by simp
qed

lemma swap_bytes_16: "rev (le_bytes 2 (ucast (bswap_16 (ucast x)))) = le_bytes 2 x"
proof -
  have "ucast (le_val (le_bytes 2 x)) = (ucast x :: u16)"
    by (simp add: le_val_bytes) (rule bit_word_eqI, auto simp: bit_simps)
  then have "ucast (bswap_16 (ucast x)) = le_val (rev (le_bytes 2 x))"
    using swap_val_16 [of "rev (le_bytes 2 x)"] by simp
  then show ?thesis using le_bytes_val [of "rev (le_bytes 2 x)"] by simp
qed

text \<open>What a device register holds is little-endian; the host's byte order does not show.\<close>

lemma read_value:
  "length bs = 4 \<Longrightarrow> ltohl big (host_val big bs) = le_val bs"
  "length bs = 2 \<Longrightarrow> ltohs big (host_val big bs) = le_val bs"
  "length bs = 1 \<Longrightarrow> host_val big bs = le_val bs"
  by (auto simp: ltohl_def ltohs_def host_val_def swap_val_32 swap_val_16 length_Suc_conv)

lemma write_bytes:
  "host_bytes big 4 (htoll big x) = le_bytes 4 x" "host_bytes big 2 (htols big x) = le_bytes 2 x"
  "host_bytes big 1 x = le_bytes 1 x"
  by (auto simp: host_bytes_def htoll_def htols_def swap_bytes_32 swap_bytes_16 One_nat_def)

section \<open>The contract of a register width\<close>

text \<open>
  A register of \<open>width\<close> bytes: how the program turns the bytes of the register into a value and a
  value into the bytes it stores. Both must speak the little-endian order of the device.
\<close>

locale register_codec =
  fixes width :: nat and decode :: "u8 list \<Rightarrow> u32" and encode :: "u32 \<Rightarrow> u8 list"
  assumes decode_le: "length bs = width \<Longrightarrow> decode bs = le_val bs"
    and encode_le: "encode x = le_bytes width x"
    and width_le: "width \<le> 4"
begin

lemma length_encode: "length (encode x) = width"
  by (simp add: encode_le)

lemma decode_encode: "decode (encode x) = take_bit (8 * width) x"
  using width_le by (simp add: decode_le encode_le le_val_bytes)

lemma encode_decode: "length bs = width \<Longrightarrow> encode (decode bs) = bs"
  using width_le le_bytes_val [of bs] by (simp add: decode_le encode_le)

end

lemma host_bytes_one [simp]: "host_bytes big (Suc 0) x = [ucast x]"
  by (simp add: host_bytes_def)

interpretation byte_reg: register_codec 1 "host_val big" "host_bytes big 1" for big
  by unfold_locales (simp_all add: read_value)

interpretation half_reg: register_codec 2 "\<lambda>bs. ltohs big (host_val big bs)" "\<lambda>x. host_bytes big 2 (htols big x)" for big
  by unfold_locales (simp_all add: read_value write_bytes)

interpretation word_reg: register_codec 4 "\<lambda>bs. ltohl big (host_val big bs)" "\<lambda>x. host_bytes big 4 (htoll big x)" for big
  by unfold_locales (simp_all add: read_value write_bytes)

section \<open>What the tool does\<close>

definition width_bytes :: "char \<Rightarrow> nat" where
  "width_bytes c = (if c = CHR ''b'' then 1 else if c = CHR ''h'' then 2 else 4)"

definition reg_bytes :: "nat \<Rightarrow> u64 \<Rightarrow> (nat \<Rightarrow> u8) \<Rightarrow> u8 list" where
  "reg_bytes n a m = map (\<lambda>i. m (unat a + i)) [0..<n]"

lemma length_reg_bytes [simp]: "length (reg_bytes n a m) = n"
  by (simp add: reg_bytes_def)

lemma runs_say [simp]: "runs (say x) p Q = Q () (p\<lparr>out := out p @ [x]\<rparr>)"
  by (simp add: say_def)

lemma runs_load [simp]: "runs (load n a) p Q \<longleftrightarrow> mapped p \<and> unat a + n \<le> MAP_SIZE \<and> Q (reg_bytes n a (mem p)) p"
  by (auto simp: runs_def load_def reg_bytes_def)

lemma runs_store [simp]: "runs (store a bs) p Q \<longleftrightarrow> mapped p \<and> unat a + length bs \<le> MAP_SIZE
    \<and> Q () (p\<lparr>mem := put_bytes (unat a) bs (mem p)\<rparr>)"
  by (auto simp: runs_def store_def)

lemma access_width_cases: "access_width_of argv \<in> {CHR ''b'', CHR ''h'', CHR ''w''}"
  by (simp add: access_width_of_def Let_def)

lemma reg_bytes_put: "reg_bytes (length bs) a (put_bytes (unat a) bs m) = bs"
  by (rule nth_equalityI) (simp_all add: reg_bytes_def put_bytes_def)

text \<open>Reading: the value printed is the little-endian value of the register's bytes.\<close>

lemma read_access_runs:
  assumes "width \<in> {CHR ''b'', CHR ''h'', CHR ''w''}" and "mapped p" and "unat a + width_bytes width \<le> MAP_SIZE"
  shows "runs (read_access big base width a) p (\<lambda>r p'.
    (let v = le_val (reg_bytes (width_bytes width) a (mem p)) in
     p' = p\<lparr>out := out p @ [Read_Value (width_bytes width) (ucast a) (base + a) v]\<rparr> \<and>
     r = (if width = CHR ''w'' then Some (sint v) else None)))"
  using assms by (auto simp: read_access_def width_bytes_def read_value Let_def)

lemma write_access_runs:
  assumes "width \<in> {CHR ''b'', CHR ''h'', CHR ''w''}" and "mapped p" and "unat a + width_bytes width \<le> MAP_SIZE"
  shows "runs (write_access big base width a v) p (\<lambda>_ p'.
    p' = p\<lparr>out := out p @ [Write_Value (width_bytes width) v (ucast a) (base + a)],
      mem := put_bytes (unat a) (le_bytes (width_bytes width) v) (mem p)\<rparr>)"
  using assms by (auto simp: write_access_def width_bytes_def write_bytes Let_def)

text \<open>
  The whole program, for a device that can be opened and mapped and an address inside the mapped
  area. With four arguments or fewer it only reads, with five or more it only writes.
\<close>

definition target_of :: "string list \<Rightarrow> u64" where
  "target_of argv = strtoul (argv ! 2)"

definition in_range :: "string list \<Rightarrow> bool" where
  "in_range argv \<longleftrightarrow> unat (target_of argv) + width_bytes (access_width_of argv) \<le> MAP_SIZE"

definition all_ok :: "environment \<Rightarrow> bool" where
  "all_ok env \<longleftrightarrow> open_ok env \<and> mmap_ok env \<and> munmap_ok env"

lemma width_four: "width_bytes (access_width_of argv) = 4 \<longleftrightarrow> access_width_of argv = CHR ''w''"
  using access_width_cases [of argv] by (auto simp: width_bytes_def)

lemma access_outside:
  assumes "width \<in> {CHR ''b'', CHR ''h'', CHR ''w''}" and "\<not> unat a + width_bytes width \<le> MAP_SIZE"
  shows "read_access big base width a p = Inl Out_Of_Bounds" "write_access big base width a v p = Inl Out_Of_Bounds"
  using assms
  by (auto simp: read_access_def write_access_def width_bytes_def load_def store_def say_def prog_defs write_bytes Let_def)

lemma greet_says: "greet argv target width p = Inr ((), p\<lparr>out := out p @ [Argc (length argv), Device (argv ! 1),
    Address (ucast target), Access_Type (if length argv \<ge> 4 then ''write'' else ''read'')]
    @ (if length argv \<ge> 4 then [Width_Given] else []) @ [Width width]\<rparr>)"
  by (simp add: greet_def say_def prog_defs Let_def)

lemma reg_rw_read:
  assumes env: "all_ok env" and argv: "length argv = 3 \<or> length argv = 4" and r: "in_range argv"
  shows "runs (reg_rw env argv) p (\<lambda>rc p'.
    (let w = width_bytes (access_width_of argv); v = le_val (reg_bytes w (target_of argv) (mem p)) in
     mem p' = mem p \<and> last (out p') = Read_Value w (ucast (target_of argv)) (map_base env + target_of argv) v
     \<and> (if w = 4 then rc = sint v \<and> mapped p' \<and> fd_open p' else rc = 0 \<and> \<not> mapped p' \<and> \<not> fd_open p')))"
proof -
  have read: "runs (read_access (big_endian env) (map_base env) c (target_of argv)) p1 Q"
    if "c = access_width_of argv" "mapped p1"
      "Q (if c = CHR ''w'' then Some (sint (le_val (reg_bytes (width_bytes c) (target_of argv) (mem p1)))) else None)
      (p1\<lparr>out := out p1 @ [Read_Value (width_bytes c) (ucast (target_of argv)) (map_base env + target_of argv)
         (le_val (reg_bytes (width_bytes c) (target_of argv) (mem p1)))]\<rparr>)"
    for p1 Q c
    unfolding that(1)
    by (rule runs_weaken [OF read_access_runs [OF access_width_cases that(2) r [unfolded in_range_def]]])
      (use that(3) [unfolded that(1)] in \<open>simp only: Let_def\<close>)
  show ?thesis
    using env argv width_four [of argv]
    unfolding reg_rw_def Let_def target_of_def [symmetric]
    by (cases "access_width_of argv = CHR ''w''") (auto simp: all_ok_def greet_def intro!: read)
qed

lemma reg_rw_write:
  assumes env: "all_ok env" and argv: "5 \<le> length argv" and r: "in_range argv"
  shows "runs (reg_rw env argv) p (\<lambda>rc p'. rc = 0 \<and> \<not> mapped p' \<and> \<not> fd_open p' \<and>
     mem p' = put_bytes (unat (target_of argv))
       (le_bytes (width_bytes (access_width_of argv)) (ucast (strtoul (argv ! 4)))) (mem p))"
proof -
  let ?w = "access_width_of argv"
  have wr: "runs (write_access (big_endian env) (map_base env) ?w (target_of argv) v) p1 Q"
    if "mapped p1" "Q () (p1\<lparr>out := out p1 @ [Write_Value (width_bytes ?w) v (ucast (target_of argv)) (map_base env + target_of argv)],
       mem := put_bytes (unat (target_of argv)) (le_bytes (width_bytes ?w) v) (mem p1)\<rparr>)"
    for p1 Q v
    by (rule runs_weaken [OF write_access_runs [OF access_width_cases that(1) r [unfolded in_range_def]]])
      (use that(2) in simp)
  show ?thesis
    using env argv unfolding reg_rw_def Let_def target_of_def [symmetric]
    by (auto simp: all_ok_def greet_def intro!: wr)
qed

lemma reg_rw_outside:
  assumes env: "all_ok env" and argv: "3 \<le> length argv" and r: "\<not> in_range argv"
  shows "reg_rw env argv p = Inl Out_Of_Bounds"
  using env argv access_outside [OF access_width_cases r [unfolded in_range_def]]
  unfolding reg_rw_def Let_def target_of_def [symmetric]
  by (auto simp: all_ok_def greet_says say_def prog_defs)

lemma reg_rw_usage: "length argv < 3 \<Longrightarrow> reg_rw env argv p
    = Inr (1, p\<lparr>out := out p @ [Usage (case argv of [] \<Rightarrow> ''(null)'' | a # _ \<Rightarrow> a)]\<rparr>)"
  by (simp add: reg_rw_def say_def prog_defs)

end
