(* ===== verification/RegText.thy ===== *)
theory RegText
  imports RegRw
begin

text \<open>
  What \<^verbatim>\<open>app/reg_rw.c\<close> prints, as text: the formats of its \<open>printf\<close> calls, and the value of a read
  taken back from the line that shows it with the tool's own number parser.
\<close>

section \<open>Formats\<close>

text \<open>\<open>%0wx\<close>, and \<open>%p\<close> as the C library of the tool's host prints it.\<close>

definition hex_lower :: "nat \<Rightarrow> nat \<Rightarrow> string" where
  "hex_lower w n = map tolower_c (hex_min w n)"

definition pointer_text :: "u64 \<Rightarrow> string" where
  "pointer_text p = (if p = 0 then ''(nil)'' else ''0x'' @ hex_lower 1 (unat p))"

definition tab :: char where
  "tab = CHR 0x09"

fun render :: "message \<Rightarrow> string" where
  "render (Usage prog) = newline # ''Usage:'' @ tab # prog @ '' <device> <address> [[type] data]'' @ [newline]
     @ tab # ''device  : character device to access'' @ [newline]
     @ tab # ''address : memory address to access'' @ [newline]
     @ tab # ''type    : access operation type : [b]yte, [h]alfword, [w]ord'' @ [newline]
     @ tab # ''data    : data to be written for a write'' @ [newline, newline]"
| "render (Argc n) = ''argc = '' @ dec_digits n @ [newline]"
| "render (Device d) = ''device: '' @ d @ [newline]"
| "render (Address a) = ''address: 0x'' @ hex_lower 8 (unat a) @ [newline]"
| "render (Access_Type t) = ''access type: '' @ t @ [newline]"
| "render Width_Given = ''access width given.'' @ [newline]"
| "render (Width c) = ''access width: '' @ (if c = CHR ''b'' then ''byte (8-bits)''
     else if c = CHR ''h'' then ''half word (16-bits)'' else ''word (32-bits)'') @ [newline]"
| "render (Fatal line file e s) = ''Error at line '' @ dec_digits line @ '', file '' @ file
     @ '' ('' @ dec_long e @ '') ['' @ s @ '']'' @ [newline]"
| "render (Opened d) = ''character device '' @ d @ '' opened.'' @ [newline]"
| "render (Mapped_At a) = ''Memory mapped at address '' @ pointer_text a @ ''.'' @ [newline]"
| "render (Read_Value n a p v) = ''Read '' @ (if n = 1 then ''8-bits'' else if n = 2 then ''16-bit'' else ''32-bit'')
     @ '' value at address 0x'' @ hex_lower 8 (unat a) @ '' ('' @ pointer_text p @ ''): 0x''
     @ hex_lower (2 * n) (unat v) @ [newline]"
| "render (Write_Value n v a p) = ''Write '' @ (if n = 1 then ''8-bits'' else if n = 2 then ''16-bits'' else ''32-bits'')
     @ '' value 0x'' @ hex_lower (2 * n) (unat v) @ '' to 0x'' @ hex_lower 8 (unat a)
     @ '' (0x'' @ pointer_text p @ '')'' @ [newline]"
| "render (Illegal_Type c) = ''Illegal data type '' @ [CHR 0x27, c, CHR 0x27] @ ''.'' @ [newline]"

definition last_word :: "string \<Rightarrow> string" where
  "last_word s = rev (takeWhile (\<lambda>c. c \<noteq> CHR '' '') (rev s))"

section \<open>A number printed and parsed\<close>

lemma lower_facts: "\<forall>n < 16. digit_of (tolower_c (hex_char n)) = Some n \<and> tolower_c (hex_char n) \<noteq> CHR '' ''"
  unfolding all_less_16 by (simp add: atLeastLessThan_upt upt_rec del: set_upt, simp add: hex_char_def tolower_c_def digit_of_def ascii_def char_of_def bit_0)

lemma lower_digit [simp]: "n < 16 \<Longrightarrow> digit_of (tolower_c (hex_char n)) = Some n"
  and lower_not_space: "n < 16 \<Longrightarrow> tolower_c (hex_char n) \<noteq> CHR '' ''"
  using lower_facts by blast+

lemma tolower_zero [simp]: "tolower_c CHR ''0'' = CHR ''0''" "digit_of CHR ''0'' = Some 0"
  by (simp_all add: tolower_c_def digit_of_def ascii_def)

lemma digits_val_digits: "digits_val 16 (map tolower_c (hex_digits n) @ ys) acc
    = digits_val 16 ys (acc * 16 ^ length (hex_digits n) + n)"
proof (induction n arbitrary: acc ys rule: hex_digits.induct)
  case (1 n)
  show ?case
  proof (cases "n < 16")
    case True
    then show ?thesis by (subst (1 2) hex_digits.simps) simp
  next
    case False
    have m: "n mod 16 < 16" by simp
    have "digits_val 16 (map tolower_c (hex_digits (n div 16)) @ tolower_c (hex_char (n mod 16)) # ys) acc
      = digits_val 16 ys ((acc * 16 ^ length (hex_digits (n div 16)) + n div 16) * 16 + n mod 16)"
      by (subst "1.IH" [OF False]) (simp add: m)
    also have "(acc * 16 ^ length (hex_digits (n div 16)) + n div 16) * 16 + n mod 16
      = acc * 16 ^ Suc (length (hex_digits (n div 16))) + n"
      by (simp add: algebra_simps)
    finally show ?thesis using False by (subst (1 2) hex_digits.simps) simp
  qed
qed

lemma digits_val_zeros: "digits_val 16 (replicate k CHR ''0'' @ ys) 0 = digits_val 16 ys 0"
  by (induction k) simp_all

lemma hex_lower_val: "digits_val 16 (hex_lower w n @ newline # ys) 0 = n"
proof -
  have "digit_of newline = None" by (simp add: newline_def digit_of_def tolower_c_def ascii_def)
  then show ?thesis
    by (simp add: hex_lower_def hex_min_def digits_val_zeros digits_val_digits)
qed

definition is_lower_digit :: "char \<Rightarrow> bool" where
  "is_lower_digit c \<longleftrightarrow> c \<noteq> CHR '' '' \<and> (case digit_of c of None \<Rightarrow> False | Some d \<Rightarrow> d < 16)"

lemma lower_digits: "list_all is_lower_digit (map tolower_c (hex_digits n))"
proof (induction n rule: hex_digits.induct)
  case (1 n)
  have d: "is_lower_digit (tolower_c (hex_char m))" if "m < 16" for m
    using that by (simp add: is_lower_digit_def lower_not_space)
  have "n mod 16 < 16" by simp
  then show ?case using 1 d by (subst hex_digits.simps) auto
qed

lemma hex_lower_digits: "list_all is_lower_digit (hex_lower w n)"
  using lower_digits [of n] by (auto simp: hex_lower_def hex_min_def is_lower_digit_def list_all_iff)

lemma hex_lower_ne: "hex_lower w n \<noteq> []"
  by (subst hex_lower_def, subst hex_min_def, subst hex_digits.simps) simp

lemma strtoul_hex:
  assumes "n < 2 ^ 64"
  shows "strtoul (''0x'' @ hex_lower w n @ newline # ys) = of_nat n"
proof -
  obtain h cs where h: "hex_lower w n = h # cs" using hex_lower_ne by (cases "hex_lower w n") auto
  have d: "\<exists>d \<in> set_option (digit_of h). d < 16"
    using hex_lower_digits [of w n] h by (auto simp: is_lower_digit_def split: option.splits)
  have x: "tolower_c CHR ''x'' = CHR ''x''" "\<not> isspace CHR ''0''"
    by (simp_all add: tolower_c_def isspace_def ascii_def)
  have "digits_val 16 (h # cs @ newline # ys) 0 = n" using hex_lower_val [of w n ys] h by simp
  then show ?thesis using assms d x by (simp add: strtoul_def h del: digits_val.simps)
qed

section \<open>The value of a line\<close>

lemma last_word_append: "CHR '' '' \<notin> set w \<Longrightarrow> last_word (s @ CHR '' '' # w) = w"
  by (simp add: last_word_def takeWhile_append)

text \<open>The value at the end of the line of a read, as the tool's parser reads it.\<close>

lemma read_text: "strtoul (last_word (render (Read_Value n a p v))) = ucast v"
proof -
  let ?w = "''0x'' @ hex_lower (2 * n) (unat v) @ [newline]"
  have s: "CHR '' '' \<notin> set ?w"
    using hex_lower_digits [of "2 * n" "unat v"] by (auto simp: list_all_iff is_lower_digit_def newline_def)
  have r: "render (Read_Value n a p v)
    = (''Read '' @ (if n = 1 then ''8-bits'' else if n = 2 then ''16-bit'' else ''32-bit'')
     @ '' value at address 0x'' @ hex_lower 8 (unat a) @ '' ('' @ pointer_text p @ ''):'') @ CHR '' '' # ?w"
    by simp
  have "unat v < 2 ^ 64" using unsigned_less [of v, where 'a = nat] by simp
  then show ?thesis
    unfolding r last_word_append [OF s] using strtoul_hex [of "unat v" "2 * n" "[]"]
    by (simp add: unsigned_ucast_eq)
qed

text \<open>The lines of a write show the address of the register with its prefix twice.\<close>

lemma write_text_prefix:
  assumes "p \<noteq> 0"
  shows "\<exists>s t. render (Write_Value n v a p) = s @ ''(0x0x'' @ t"
proof
  show "\<exists>t. render (Write_Value n v a p)
    = (''Write '' @ (if n = 1 then ''8-bits'' else if n = 2 then ''16-bits'' else ''32-bits'')
     @ '' value 0x'' @ hex_lower (2 * n) (unat v) @ '' to 0x'' @ hex_lower 8 (unat a) @ '' '') @ ''(0x0x'' @ t"
    using assms by (intro exI [of _ "hex_lower 1 (unat p) @ '')'' @ [newline]"]) (simp add: pointer_text_def)
qed

end
