(* ===== verification/ToolProps.thy ===== *)
theory ToolProps
  imports DemoKernel RegText
begin

text \<open>
  Properties of the register tool \<^verbatim>\<open>app/reg_rw.c\<close>, with witnesses on a big-endian host.
\<close>

section \<open>The register tool\<close>

text \<open>
  C33: With a device and an address inside the mapped area, and with or without an access type, the
  tool reads: the last line it prints shows the address, where it is mapped, and the little-endian
  value of the register's bytes at the width asked for, whatever the byte order of the host; the
  tool's own number parser reads that value back from the end of the line, and memory is as before.
  After a word it returns the value as its status and leaves the mapping and the file open.
\<close>

theorem reg_tool_reads:
  assumes "all_ok env" and "length argv = 3 \<or> length argv = 4" and "in_range argv"
  shows "runs (reg_rw env argv) p (\<lambda>rc p'.
    (let w = width_bytes (access_width_of argv); v = le_val (reg_bytes w (target_of argv) (mem p)) in
     mem p' = mem p \<and> last (out p') = Read_Value w (ucast (target_of argv)) (map_base env + target_of argv) v
     \<and> strtoul (last_word (render (last (out p')))) = ucast v
     \<and> (if w = 4 then rc = sint v \<and> mapped p' \<and> fd_open p' else rc = 0 \<and> \<not> mapped p' \<and> \<not> fd_open p')))"
  unfolding Let_def
  by (rule runs_weaken [OF reg_rw_read [OF assms, unfolded Let_def]]) (simp add: read_text del: render.simps)

definition demo_env :: environment where
  "demo_env = \<lparr>open_ok = True, mmap_ok = True, munmap_ok = True, big_endian = True,
     map_base = 0x7f0000000000, this_file = ''reg_rw.c'', failure = (\<lambda>line. (0, ''''))\<rparr>"

definition demo_process :: process where
  "demo_process = \<lparr>mem = (\<lambda>a. word_of_nat a), fd_open = False, mapped = False, out = []\<rparr>"

lemma demo_all_ok: "all_ok demo_env"
  by (simp add: all_ok_def demo_env_def)

lemmas strtoul_eval = strtoul_def digit_of_def ascii_def tolower_c_def isspace_def

lemma demo_argv:
  "target_of [''reg_rw'', ''/dev/x'', ''0x10'', ''h''] = 0x10"
  "access_width_of [''reg_rw'', ''/dev/x'', ''0x10'', ''h''] = CHR ''h''"
  "in_range [''reg_rw'', ''/dev/x'', ''0x10'', ''h'']"
proof -
  show t: "target_of [''reg_rw'', ''/dev/x'', ''0x10'', ''h''] = 0x10"
    by (simp add: target_of_def strtoul_eval)
  show a: "access_width_of [''reg_rw'', ''/dev/x'', ''0x10'', ''h''] = CHR ''h''"
    by (simp add: access_width_of_def tolower_c_def ascii_def Let_def)
  show "in_range [''reg_rw'', ''/dev/x'', ''0x10'', ''h'']"
    by (simp add: in_range_def t a width_bytes_def MAP_SIZE_def)
qed

theorem reg_tool_reads_witness:
  "runs (reg_rw demo_env [''reg_rw'', ''/dev/x'', ''0x10'', ''h'']) demo_process (\<lambda>rc p'.
     rc = 0 \<and> last (out p') = Read_Value 2 0x10 0x7f0000000010 (le_val [0x10, 0x11])
     \<and> strtoul (last_word (render (last (out p')))) = ucast (le_val [0x10, 0x11]))"
proof (rule runs_weaken [OF reg_tool_reads [OF demo_all_ok _ demo_argv(3)]])
  have b: "reg_bytes 2 0x10 (mem demo_process) = [0x10, 0x11]"
    by (simp add: reg_bytes_def demo_process_def upt_rec)
  fix rc p'
  assume "let w = width_bytes (access_width_of [''reg_rw'', ''/dev/x'', ''0x10'', ''h'']);
      v = le_val (reg_bytes w (target_of [''reg_rw'', ''/dev/x'', ''0x10'', ''h'']) (mem demo_process)) in
     mem p' = mem demo_process
     \<and> last (out p') = Read_Value w (ucast (target_of [''reg_rw'', ''/dev/x'', ''0x10'', ''h'']))
         (map_base demo_env + target_of [''reg_rw'', ''/dev/x'', ''0x10'', ''h'']) v
     \<and> strtoul (last_word (render (last (out p')))) = ucast v
     \<and> (if w = 4 then rc = sint v \<and> mapped p' \<and> fd_open p' else rc = 0 \<and> \<not> mapped p' \<and> \<not> fd_open p')"
  then show "rc = 0 \<and> last (out p') = Read_Value 2 0x10 0x7f0000000010 (le_val [0x10, 0x11])
     \<and> strtoul (last_word (render (last (out p')))) = ucast (le_val [0x10, 0x11])"
    unfolding Let_def demo_argv(1,2) by (simp add: width_bytes_def b demo_env_def read_text del: render.simps le_val.simps)
qed simp

text \<open>
  C34: With a type and data the tool writes: exactly the bytes of the register at the width asked
  for get the little-endian value of the data, every other byte keeps its value, and everything is
  closed again. The data is cut down to the width without a warning.
\<close>

theorem reg_tool_writes:
  assumes "all_ok env" and "5 \<le> length argv" and "in_range argv"
  shows "runs (reg_rw env argv) p (\<lambda>rc p'. rc = 0 \<and> \<not> mapped p' \<and> \<not> fd_open p' \<and>
     (let w = width_bytes (access_width_of argv); a = unat (target_of argv) in
      reg_bytes w (target_of argv) (mem p') = le_bytes w (ucast (strtoul (argv ! 4)))
      \<and> (\<forall>k. k < a \<or> a + w \<le> k \<longrightarrow> mem p' k = mem p k)))"
proof (rule runs_weaken [OF reg_rw_write [OF assms, of p]])
  fix rc p'
  let ?w = "width_bytes (access_width_of argv)" and ?a = "unat (target_of argv)"
  let ?bs = "le_bytes ?w (ucast (strtoul (argv ! 4)))"
  assume o: "rc = 0 \<and> \<not> mapped p' \<and> \<not> fd_open p' \<and> mem p' = put_bytes ?a ?bs (mem p)"
  have "reg_bytes (length ?bs) (target_of argv) (mem p') = ?bs"
    using reg_bytes_put [of ?bs "target_of argv" "mem p"] o by (simp only:)
  moreover have "\<forall>k. k < ?a \<or> ?a + ?w \<le> k \<longrightarrow> mem p' k = mem p k"
    using o by (simp add: put_bytes_def)
  ultimately show "rc = 0 \<and> \<not> mapped p' \<and> \<not> fd_open p' \<and>
     (let w = ?w; a = ?a in reg_bytes w (target_of argv) (mem p') = le_bytes w (ucast (strtoul (argv ! 4)))
      \<and> (\<forall>k. k < a \<or> a + w \<le> k \<longrightarrow> mem p' k = mem p k))"
    using o by (simp add: Let_def)
qed

lemma in_range_data [simp]: "length argv = 4 \<Longrightarrow> in_range (argv @ ds) = in_range argv"
  "length argv = 4 \<Longrightarrow> target_of (argv @ ds) = target_of argv"
  "length argv = 4 \<Longrightarrow> access_width_of (argv @ ds) = access_width_of argv"
  by (simp_all add: in_range_def target_of_def access_width_of_def nth_append Let_def)

theorem reg_tool_writes_witness:
  "runs (reg_rw demo_env ([''reg_rw'', ''/dev/x'', ''0x10'', ''h''] @ [''0x12345''])) demo_process (\<lambda>rc p'.
     reg_bytes 2 0x10 (mem p') = [0x45, 0x23])"
proof -
  have v: "le_bytes 2 (ucast (strtoul ''0x12345'')) = [0x45, 0x23]"
  proof -
    have "ucast (strtoul ''0x12345'') = (0x12345 :: u32)" by (simp add: strtoul_eval)
    moreover have "le_bytes 2 x = [ucast x, ucast (drop_bit 8 x)]" for x
      unfolding numeral_2_eq_2 by simp
    ultimately show ?thesis by simp
  qed
  let ?argv = "[''reg_rw'', ''/dev/x'', ''0x10'', ''h'']"
  show ?thesis
  proof (rule runs_weaken [OF reg_tool_writes [OF demo_all_ok]])
    fix rc :: int and p' :: process
    assume "rc = 0 \<and> \<not> mapped p' \<and> \<not> fd_open p' \<and>
     (let w = width_bytes (access_width_of (?argv @ [''0x12345''])); a = unat (target_of (?argv @ [''0x12345''])) in
      reg_bytes w (target_of (?argv @ [''0x12345''])) (mem p') = le_bytes w (ucast (strtoul ((?argv @ [''0x12345'']) ! 4)))
      \<and> (\<forall>k. k < a \<or> a + w \<le> k \<longrightarrow> mem p' k = mem demo_process k))"
    moreover have "(?argv @ [''0x12345'']) ! 4 = ''0x12345''" "length ?argv = 4" by simp_all
    ultimately show "reg_bytes 2 0x10 (mem p') = [0x45, 0x23]"
      unfolding Let_def by (simp only: in_range_data demo_argv width_bytes_def) (simp add: v)
  next
    have "length ?argv = 4" by simp
    then show "in_range (?argv @ [''0x12345''])" using demo_argv(3) by (simp only: in_range_data)
  qed simp
qed

lemma width_bytes_le: "width_bytes c \<le> 4"
  by (simp add: width_bytes_def)

lemma ucast_take_bit: "n \<le> 4 \<Longrightarrow> ucast (take_bit (8 * n) (ucast x :: u32)) = take_bit (8 * n) (x :: u64)"
  by (rule bit_word_eqI) (auto simp: bit_simps)

text \<open>
  C35: Reading back a register that has just been written with the same arguments prints the data,
  cut down to the width, on hosts of either byte order: the last word of the tool's output, parsed
  as the tool parses its arguments, is the data modulo two to the width.
\<close>

theorem reg_tool_roundtrip:
  assumes "all_ok env" and "length argv = 4" and "in_range argv"
  shows "runs (mbind (reg_rw env (argv @ [dat])) (\<lambda>_. reg_rw env argv)) p (\<lambda>rc p'.
    (let w = width_bytes (access_width_of argv) in
     last (out p') = Read_Value w (ucast (target_of argv)) (map_base env + target_of argv)
         (take_bit (8 * w) (ucast (strtoul dat)))
     \<and> strtoul (last_word (render (last (out p')))) = take_bit (8 * w) (strtoul dat)))"
  unfolding runs_mbind
proof (rule runs_weaken [OF reg_rw_write [OF assms(1)]])
  let ?w = "width_bytes (access_width_of argv)" and ?a = "target_of argv"
  let ?bs = "le_bytes ?w (ucast (strtoul dat))"
  fix rc :: int and p1 :: process
  assume "rc = 0 \<and> \<not> mapped p1 \<and> \<not> fd_open p1 \<and> mem p1 = put_bytes (unat (target_of (argv @ [dat])))
       (le_bytes (width_bytes (access_width_of (argv @ [dat]))) (ucast (strtoul ((argv @ [dat]) ! 4)))) (mem p)"
  then have m: "mem p1 = put_bytes (unat ?a) ?bs (mem p)"
    using assms(2) by (simp add: nth_append)
  have "reg_bytes (length ?bs) ?a (mem p1) = ?bs" unfolding m by (rule reg_bytes_put)
  then have v: "le_val (reg_bytes ?w ?a (mem p1)) = take_bit (8 * ?w) (ucast (strtoul dat))"
    using le_val_bytes [OF width_bytes_le] by simp
  have "length argv = 3 \<or> length argv = 4" using assms(2) by simp
  from reg_rw_read [OF assms(1) this assms(3), of p1]
  show "runs (reg_rw env argv) p1 (\<lambda>rc p'. (let w = ?w in
      last (out p') = Read_Value w (ucast ?a) (map_base env + ?a) (take_bit (8 * w) (ucast (strtoul dat)))
      \<and> strtoul (last_word (render (last (out p')))) = take_bit (8 * w) (strtoul dat)))"
    unfolding Let_def v
    by (rule runs_weaken) (simp add: read_text ucast_take_bit width_bytes_le del: render.simps)
qed (use assms in simp_all)

theorem reg_tool_roundtrip_witness:
  "runs (mbind (reg_rw demo_env ([''reg_rw'', ''/dev/x'', ''0x10'', ''h''] @ [''0x12345'']))
     (\<lambda>_. reg_rw demo_env [''reg_rw'', ''/dev/x'', ''0x10'', ''h''])) demo_process
     (\<lambda>rc p'. last (out p') = Read_Value 2 0x10 0x7f0000000010 0x2345
       \<and> strtoul (last_word (render (last (out p')))) = 0x2345)"
proof -
  have v: "take_bit 16 (ucast (strtoul ''0x12345'')) = (0x2345 :: u32)" "take_bit 16 (strtoul ''0x12345'') = 0x2345"
    by (simp_all add: strtoul_eval)
  show ?thesis
    by (rule runs_weaken [OF reg_tool_roundtrip [OF demo_all_ok _ demo_argv(3)]])
      (simp_all add: Let_def width_bytes_def demo_argv(1,2) v demo_env_def read_text del: render.simps)
qed

section \<open>The tool on the driver\<close>

definition tool_vma :: "u64 \<Rightarrow> vm_area_struct" where
  "tool_vma a = \<lparr>vm_start = a, vm_end = a + of_nat MAP_SIZE, vm_pgoff = 0, vm_page_prot = 0, vm_flags = 0\<rparr>"

text \<open>
  The tool maps 512 KiB from the start of the device. The driver refuses to map more than the
  base address register has, so on a card whose register is smaller the tool fails, reading and
  writing nothing.
\<close>

lemma tool_needs_large_bar:
  assumes "window_ok (bar_base K 0 w) (bar_len K 0 w)" and "bar_len K 0 w < MAP_SIZE" and "3 \<le> length argv"
    and "xpcie_user_mmap K (tool_vma a) w = Inr ((rc, vma), w')" and "open_ok env" and "mmap_ok env \<longleftrightarrow> rc = 0"
  shows "rc = - EINVAL \<and> w' = w \<and> runs (reg_rw env argv) p (\<lambda>rc p'. rc = 1 \<and> mem p' = mem p
    \<and> (\<exists>e s. last (out p') = Fatal 91 (this_file env) e s))"
proof -
  have v: "vma_offset (tool_vma a) = 0" "vma_size (tool_vma a) = MAP_SIZE"
    by (simp_all add: vma_offset_def vma_size_def tool_vma_def MAP_SIZE_def)
  have "xpcie_user_mmap K (tool_vma a) w = Inr ((- EINVAL, tool_vma a), w)"
    by (rule user_mmap.mm_too_big [OF assms(1)]) (use assms(2) in \<open>simp_all add: v\<close>)
  then have r: "rc = - EINVAL" "w' = w" using assms(4) by simp_all
  then have "\<not> mmap_ok env" using assms(6) by (simp add: EINVAL_def)
  then show ?thesis using r assms(3,5) by (auto simp: reg_rw_def Let_def greet_def fatal_def split: prod.splits)
qed

end
