(* ===== verification/Threads.thy ===== *)
theory Threads
  imports Prelude
begin

text \<open>
  The thread class of \<^verbatim>\<open>app/Thread.cpp\<close>: an object with a thread identifier and two flags
  around the POSIX calls that create, join, detach and cancel a thread. What a call returns is a
  parameter, a function of the calls made before; the calls are recorded in order.
\<close>

section \<open>The class\<close>

datatype pcall =
    P_create int u64 \<comment> \<open>result, identifier\<close>
  | P_join u64 int
  | P_detach u64 int
  | P_cancel u64

record papi =
  p_create :: "pcall list \<Rightarrow> int \<times> u64"
  p_join :: "pcall list \<Rightarrow> u64 \<Rightarrow> int"
  p_detach :: "pcall list \<Rightarrow> u64 \<Rightarrow> int"

record thread_obj =
  m_tid :: u64
  m_running :: int
  m_detached :: int
  threadName :: string
  calls :: "pcall list"

definition note_call :: "pcall \<Rightarrow> (thread_obj, unit) prog" where
  "note_call c = modify (\<lambda>t. t\<lparr>calls := calls t @ [c]\<rparr>)"

definition Thread_named :: "string \<Rightarrow> thread_obj" where
  "Thread_named name = \<lparr>m_tid = 0, m_running = 0, m_detached = 0, threadName = name, calls = []\<rparr>"

definition Thread_default :: thread_obj where
  "Thread_default = Thread_named ''defaultNmae''"

definition thread_start :: "papi \<Rightarrow> (thread_obj, int) prog" where
  "thread_start P =
     mbind (get_state (\<lambda>t. p_create P (calls t))) (\<lambda>(rc, tid).
     mthen (modify (\<lambda>t. t\<lparr>m_tid := tid\<rparr>))
     (mthen (note_call (P_create rc tid))
     (mthen (if rc = 0 then modify (\<lambda>t. t\<lparr>m_running := 1\<rparr>) else ret ())
     (ret rc))))"

definition thread_join :: "papi \<Rightarrow> (thread_obj, int) prog" where
  "thread_join P =
     mbind (get_state id) (\<lambda>t.
     if m_running t = 1 then
       let rc = p_join P (calls t) (m_tid t) in
       mthen (note_call (P_join (m_tid t) rc))
       (mthen (if rc = 0 then mthen (modify (\<lambda>t. t\<lparr>m_detached := 1\<rparr>)) (modify (\<lambda>t. t\<lparr>m_running := 0\<rparr>)) else ret ())
       (ret rc))
     else ret (- 1))"

definition thread_detach :: "papi \<Rightarrow> (thread_obj, int) prog" where
  "thread_detach P =
     mbind (get_state id) (\<lambda>t.
     if m_running t = 1 \<and> m_detached t = 0 then
       let rc = p_detach P (calls t) (m_tid t) in
       mthen (note_call (P_detach (m_tid t) rc))
       (mthen (if rc = 0 then modify (\<lambda>t. t\<lparr>m_detached := 1\<rparr>) else ret ())
       (ret rc))
     else ret (- 1))"

definition thread_self :: "(thread_obj, u64) prog" where
  "thread_self = get_state m_tid"

text \<open>The destructor; the object is gone afterwards, what counts are the calls it has made.\<close>

definition thread_destroy :: "papi \<Rightarrow> (thread_obj, unit) prog" where
  "thread_destroy P =
     mbind (get_state id) (\<lambda>t.
     mthen (if m_running t = 1 \<and> m_detached t = 0
            then note_call (P_detach (m_tid t) (p_detach P (calls t) (m_tid t))) else ret ())
     (mbind (get_state m_running) (\<lambda>r.
      if r = 1 then note_call (P_cancel (m_tid t)) else ret ())))"

section \<open>Using a thread object\<close>

datatype use_op = U_start | U_join | U_detach

fun use_step :: "papi \<Rightarrow> use_op \<Rightarrow> (thread_obj, int) prog" where
  "use_step P U_start = thread_start P"
| "use_step P U_join = thread_join P"
| "use_step P U_detach = thread_detach P"

text \<open>An object is constructed, used and destroyed.\<close>

definition thread_life :: "papi \<Rightarrow> string \<Rightarrow> use_op list \<Rightarrow> crash + (unit \<times> thread_obj)" where
  "thread_life P name us =
     mthen (forM us (\<lambda>u. mbind (use_step P u) (\<lambda>_. ret ()))) (thread_destroy P) (Thread_named name)"

section \<open>The rules of POSIX threads\<close>

text \<open>
  What becomes of the threads a sequence of calls creates. A thread must be joined or detached once
  (\<open>None\<close>: a call breaks this rule), and must not be joined or cancelled once it is joined.
\<close>

datatype fate = Joinable | Detached | Joined

fun fates :: "pcall list \<Rightarrow> (u64 \<Rightarrow> fate option) \<Rightarrow> (u64 \<Rightarrow> fate option) option" where
  "fates [] m = Some m"
| "fates (P_create rc tid # cs) m = fates cs (if rc = 0 then m(tid \<mapsto> Joinable) else m)"
| "fates (P_join tid rc # cs) m =
     (if m tid = Some Joinable then fates cs (if rc = 0 then m(tid \<mapsto> Joined) else m) else None)"
| "fates (P_detach tid rc # cs) m =
     (if m tid = Some Joinable then fates cs (if rc = 0 then m(tid \<mapsto> Detached) else m) else None)"
| "fates (P_cancel tid # cs) m = (if m tid \<in> {Some Joinable, Some Detached} then fates cs m else None)"

definition lawful :: "pcall list \<Rightarrow> bool" where
  "lawful cs \<longleftrightarrow> fates cs Map.empty \<noteq> None"

text \<open>No thread is left that is neither joined nor detached.\<close>

definition reaped :: "pcall list \<Rightarrow> bool" where
  "reaped cs \<longleftrightarrow> (case fates cs Map.empty of None \<Rightarrow> False | Some m \<Rightarrow> \<forall>tid. m tid \<noteq> Some Joinable)"

lemma fates_append: "fates (xs @ ys) m = (case fates xs m of None \<Rightarrow> None | Some m' \<Rightarrow> fates ys m')"
  by (induction xs m rule: fates.induct) auto

text \<open>Detaching a joinable thread succeeds.\<close>

definition detach_ok :: "papi \<Rightarrow> bool" where
  "detach_ok P \<longleftrightarrow> (\<forall>cs m tid. fates cs Map.empty = Some m \<longrightarrow> m tid = Some Joinable \<longrightarrow> p_detach P cs tid = 0)"

section \<open>Orderly use\<close>

text \<open>The object is started at most once, and not joined after it has been detached.\<close>

fun orderly :: "bool \<Rightarrow> bool \<Rightarrow> use_op list \<Rightarrow> bool" where
  "orderly started detached [] = True"
| "orderly started detached (U_start # us) = (\<not> started \<and> orderly True detached us)"
| "orderly started detached (U_join # us) = (\<not> detached \<and> orderly started detached us)"
| "orderly started detached (U_detach # us) = orderly started True us"

text \<open>The flags of the object tell the fate of its thread.\<close>

definition flags_tell :: "thread_obj \<Rightarrow> (u64 \<Rightarrow> fate option) \<Rightarrow> bool" where
  "flags_tell t m \<longleftrightarrow>
     (\<forall>tid. tid \<noteq> m_tid t \<longrightarrow> m tid = None) \<and>
     ((m_running t = 0 \<and> m_detached t = 0 \<and> m (m_tid t) = None)
      \<or> (m_running t = 1 \<and> m_detached t = 0 \<and> m (m_tid t) = Some Joinable)
      \<or> (m_running t = 1 \<and> m_detached t = 1 \<and> m (m_tid t) = Some Detached)
      \<or> (m_running t = 0 \<and> m_detached t = 1 \<and> m (m_tid t) = Some Joined))"

definition thread_inv :: "bool \<Rightarrow> bool \<Rightarrow> thread_obj \<Rightarrow> bool" where
  "thread_inv started detached t \<longleftrightarrow> (\<exists>m. fates (calls t) Map.empty = Some m \<and> flags_tell t m
     \<and> (\<not> started \<longrightarrow> (\<forall>tid. m tid = None)) \<and> (\<not> detached \<longrightarrow> m (m_tid t) \<noteq> Some Detached))"

lemma runs_note_call [simp]: "runs (note_call c) t Q = Q () (t\<lparr>calls := calls t @ [c]\<rparr>)"
  by (simp add: note_call_def)

lemma start_inv:
  assumes "thread_inv False detached t"
  shows "runs (thread_start P) t (\<lambda>_. thread_inv True detached)"
proof -
  obtain rc tid where c: "p_create P (calls t) = (rc, tid)" by (cases "p_create P (calls t)")
  obtain m where m: "fates (calls t) Map.empty = Some m" "flags_tell t m" "\<forall>tid. m tid = None"
    using assms by (auto simp: thread_inv_def)
  then have f: "m_running t = 0" "m_detached t = 0" by (auto simp: flags_tell_def)
  show ?thesis
    using c m f by (auto simp: thread_start_def thread_inv_def fates_append flags_tell_def)
qed

lemma join_inv:
  assumes "thread_inv started False t"
  shows "runs (thread_join P) t (\<lambda>_. thread_inv started False)"
proof -
  obtain m where m: "fates (calls t) Map.empty = Some m" "flags_tell t m" "\<not> started \<longrightarrow> (\<forall>tid. m tid = None)"
    "m (m_tid t) \<noteq> Some Detached"
    using assms by (auto simp: thread_inv_def)
  show ?thesis
  proof (cases "m_running t = 1")
    case True
    then have "m (m_tid t) = Some Joinable" "m_detached t = 0" "started"
      using m by (auto simp: flags_tell_def)
    then show ?thesis
      using m True by (auto simp: thread_join_def thread_inv_def fates_append flags_tell_def Let_def)
  next
    case False
    then show ?thesis using assms by (simp add: thread_join_def)
  qed
qed

lemma detach_inv:
  assumes "thread_inv started detached t"
  shows "runs (thread_detach P) t (\<lambda>_. thread_inv started True)"
proof -
  obtain m where m: "fates (calls t) Map.empty = Some m" "flags_tell t m" "\<not> started \<longrightarrow> (\<forall>tid. m tid = None)"
    using assms by (auto simp: thread_inv_def)
  show ?thesis
  proof (cases "m_running t = 1 \<and> m_detached t = 0")
    case True
    then have "m (m_tid t) = Some Joinable" "started" using m by (auto simp: flags_tell_def)
    then show ?thesis
      using m True by (auto simp: thread_detach_def thread_inv_def fates_append flags_tell_def Let_def)
  next
    case False
    then show ?thesis using m by (auto simp: thread_detach_def thread_inv_def)
  qed
qed

lemma uses_inv:
  assumes "orderly started detached us" and "thread_inv started detached t"
  shows "runs (forM us (\<lambda>u. mbind (use_step P u) (\<lambda>_. ret ()))) t (\<lambda>_ t'. \<exists>started detached. thread_inv started detached t')"
  using assms
proof (induction started detached us arbitrary: t rule: orderly.induct)
  case (1 started detached)
  then show ?case by auto
next
  case (2 started detached us)
  then show ?case by (auto intro!: runs_weaken [OF start_inv [of detached t P]])
next
  case (3 started detached us)
  then show ?case by (auto intro!: runs_weaken [OF join_inv [of started t P]])
next
  case (4 started detached us)
  then show ?case by (auto intro!: runs_weaken [OF detach_inv [of started detached t P]])
qed

lemma destroy_inv:
  assumes "detach_ok P" and "thread_inv started detached t"
  shows "runs (thread_destroy P) t (\<lambda>_ t'. lawful (calls t') \<and> reaped (calls t'))"
proof -
  obtain m where m: "fates (calls t) Map.empty = Some m" "flags_tell t m"
    using assms(2) by (auto simp: thread_inv_def)
  have d: "p_detach P (calls t) (m_tid t) = 0" if "m (m_tid t) = Some Joinable"
    using assms(1) m(1) that unfolding detach_ok_def by blast
  have own: "m tid \<noteq> Some Joinable" if "m (m_tid t) \<noteq> Some Joinable" for tid
    using m(2) that by (cases "tid = m_tid t") (auto simp: flags_tell_def)
  show ?thesis
    using m d unfolding flags_tell_def
    by (elim conjE disjE) (auto simp: own thread_destroy_def lawful_def reaped_def fates_append split: if_splits)
qed

lemma thread_life_lawful:
  assumes "detach_ok P" and "orderly False False us"
  shows "\<exists>t. thread_life P name us = Inr ((), t) \<and> lawful (calls t) \<and> reaped (calls t)"
proof -
  have i: "thread_inv False False (Thread_named name)"
    by (simp add: thread_inv_def Thread_named_def flags_tell_def)
  have "runs (mthen (forM us (\<lambda>u. mbind (use_step P u) (\<lambda>_. ret ()))) (thread_destroy P)) (Thread_named name)
      (\<lambda>_ t. lawful (calls t) \<and> reaped (calls t))"
    unfolding runs_mthen
    by (rule runs_weaken [OF uses_inv [OF assms(2) i]]) (blast intro: destroy_inv [OF assms(1)])
  then show ?thesis by (simp add: thread_life_def runs_iff)
qed

end
