(* ===== verification/Locks.thy ===== *)
theory Locks
  imports Prelude
begin

text \<open>
  The locks of \<^verbatim>\<open>app/Lock.h\<close> and \<^verbatim>\<open>app/Lock.cpp\<close>. \<open>LockedValue\<close> guards a number by a
  read-write lock; its operations are modelled as the steps of concurrent threads, with the read and
  the write of an increment as separate steps. The mutex implements the interface \<open>ILock\<close>.
\<close>

section \<open>The read-write lock\<close>

text \<open>A POSIX read-write lock: the threads that hold it for reading, and the one that holds it for writing.\<close>

record 'i rwlock =
  readers :: "'i set"
  writer :: "'i option"

definition RWLock_init :: "'i rwlock" where
  "RWLock_init = \<lparr>readers = {}, writer = None\<rparr>"

text \<open>A call that has to wait is not enabled: the result is \<open>None\<close>.\<close>

definition ReadLock :: "'i \<Rightarrow> 'i rwlock \<Rightarrow> 'i rwlock option" where
  "ReadLock i l = (if writer l = None then Some (l\<lparr>readers := insert i (readers l)\<rparr>) else None)"

definition WriteLock :: "'i \<Rightarrow> 'i rwlock \<Rightarrow> 'i rwlock option" where
  "WriteLock i l = (if writer l = None \<and> readers l = {} then Some (l\<lparr>writer := Some i\<rparr>) else None)"

definition UnLock :: "'i \<Rightarrow> 'i rwlock \<Rightarrow> 'i rwlock" where
  "UnLock i l = (if writer l = Some i then l\<lparr>writer := None\<rparr> else l\<lparr>readers := readers l - {i}\<rparr>)"

text \<open>
  What every way of locking out other threads has in common: a lock that is held cannot be taken, and
  only its holder gives it back. \<open>holder\<close> tells the thread that has it.
\<close>

locale exclusive_lock =
  fixes lock :: "'i \<Rightarrow> 'm \<Rightarrow> 'm option" and unlock :: "'i \<Rightarrow> 'm \<Rightarrow> 'm" and holder :: "'m \<Rightarrow> 'i option"
  assumes lock_holder: "lock i m = Some m' \<Longrightarrow> holder m = None \<and> holder m' = Some i"
    and lock_held: "holder m \<noteq> None \<Longrightarrow> lock i m = None"
    and unlock_own: "holder m = Some i \<Longrightarrow> holder (unlock i m) = None"
    and unlock_other: "holder m \<noteq> Some i \<Longrightarrow> holder (unlock i m) = holder m"
begin

text \<open>While a thread has the lock no thread gets it, whatever the others call, until it gives it back.\<close>

lemma excludes: "lock i m = Some m' \<Longrightarrow> j \<noteq> i \<Longrightarrow> lock k (unlock j m') = None"
  using lock_holder [of i m m'] unlock_other [of m' j] lock_held [of "unlock j m'" k] by simp

end

text \<open>
  What a client relies on: who may enter, and whom a lock lets in at the same time. \<open>reads\<close> and
  \<open>writes\<close> tell the threads inside.
\<close>

locale rw_lock =
  fixes rd wr :: "'i \<Rightarrow> 'l \<Rightarrow> 'l option" and un :: "'i \<Rightarrow> 'l \<Rightarrow> 'l" and unlocked :: 'l
    and reads :: "'l \<Rightarrow> 'i set" and writes :: "'l \<Rightarrow> 'i option"
  assumes unlocked: "reads unlocked = {}" "writes unlocked = None"
    and rd_lock: "rd i l = Some l' \<Longrightarrow> writes l = None \<and> writes l' = None \<and> reads l' = insert i (reads l)"
    and wr_lock: "wr i l = Some l' \<Longrightarrow> writes l = None \<and> reads l = {} \<and> writes l' = Some i \<and> reads l' = {}"
    and rd_enabled: "writes l = None \<Longrightarrow> rd i l \<noteq> None"
    and wr_enabled: "writes l = None \<Longrightarrow> reads l = {} \<Longrightarrow> wr i l \<noteq> None"
    and un_writer: "writes l = Some i \<Longrightarrow> writes (un i l) = None \<and> reads (un i l) = reads l"
    and un_reader: "writes l \<noteq> Some i \<Longrightarrow> writes (un i l) = writes l \<and> reads (un i l) = reads l - {i}"
begin

definition exclusive :: "'l \<Rightarrow> bool" where
  "exclusive l \<longleftrightarrow> (writes l \<noteq> None \<longrightarrow> reads l = {})"

lemma exclusive_unlocked: "exclusive unlocked"
  by (simp add: exclusive_def unlocked)

lemma exclusive_rd: "rd i l = Some l' \<Longrightarrow> exclusive l'"
  using rd_lock by (simp add: exclusive_def)

lemma exclusive_wr: "wr i l = Some l' \<Longrightarrow> exclusive l'"
  using wr_lock by (simp add: exclusive_def)

lemma exclusive_un: "exclusive l \<Longrightarrow> exclusive (un i l)"
  using un_writer un_reader by (cases "writes l = Some i") (auto simp: exclusive_def)

lemma unlocked_enables: "\<exists>l. rd i unlocked = Some l" "\<exists>l. wr i unlocked = Some l"
  using rd_enabled wr_enabled unlocked by blast+

end

text \<open>Locking for writing is such a lock.\<close>

sublocale rw_lock \<subseteq> excl: exclusive_lock wr un writes
proof unfold_locales
  fix i j m m'
  show "wr i m = Some m' \<Longrightarrow> writes m = None \<and> writes m' = Some i" using wr_lock by blast
  show "writes m \<noteq> None \<Longrightarrow> wr i m = None" using wr_lock [of i m] by (cases "wr i m") auto
  show "writes m = Some i \<Longrightarrow> writes (un i m) = None" using un_writer by blast
  show "writes m \<noteq> Some i \<Longrightarrow> writes (un i m) = writes m" using un_reader by blast
qed

interpretation posix: rw_lock ReadLock WriteLock UnLock RWLock_init readers writer
  by unfold_locales (auto simp: RWLock_init_def ReadLock_def WriteLock_def UnLock_def split: if_splits)

section \<open>The locked value\<close>

datatype 'v lv_op = LV_set 'v | LV_get | LV_increase | LV_decrease

text \<open>What an operation makes of the value, and what it returns given the value it has read.\<close>

fun new_value :: "'v :: ring_1 lv_op \<Rightarrow> 'v \<Rightarrow> 'v" where
  "new_value (LV_set x) v = x"
| "new_value LV_get v = v"
| "new_value LV_increase v = v + 1"
| "new_value LV_decrease v = v - 1"

fun returned :: "'v :: ring_1 lv_op \<Rightarrow> 'v \<Rightarrow> 'v option" where
  "returned (LV_set x) v = None"
| "returned LV_get v = Some v"
| "returned LV_increase v = Some (v + 1)"
| "returned LV_decrease v = Some (v - 1)"

text \<open>Where a thread is in an operation: waiting or outside, holding the lock, having read the value, having written it.\<close>

datatype 'v lv_pc = Idle | Holding "'v lv_op" | Has_Read "'v lv_op" 'v | Has_Written "'v lv_op" "'v option"

text \<open>\<open>history\<close> records the operations in the order of their last access to the value.\<close>

record ('i, 'v) locked_value =
  lv_lock :: "'i rwlock"
  lv_value :: 'v
  lv_pc :: "'i \<Rightarrow> 'v lv_pc"
  history :: "('v lv_op \<times> 'v option) list"

definition LockedValue_init :: "('i, 'v :: ring_1) locked_value" where
  "LockedValue_init = \<lparr>lv_lock = RWLock_init, lv_value = 0, lv_pc = (\<lambda>_. Idle), history = []\<rparr>"

fun take_lock :: "'v lv_op \<Rightarrow> 'i \<Rightarrow> 'i rwlock \<Rightarrow> 'i rwlock option" where
  "take_lock LV_get i l = ReadLock i l"
| "take_lock (LV_set x) i l = WriteLock i l"
| "take_lock LV_increase i l = WriteLock i l"
| "take_lock LV_decrease i l = WriteLock i l"

inductive lv_step ::
  "'i \<Rightarrow> ('i, 'v :: ring_1) locked_value \<Rightarrow> ('i, 'v) locked_value \<Rightarrow> bool" for i where
  lock: "lv_pc c i = Idle \<Longrightarrow> take_lock opn i (lv_lock c) = Some l \<Longrightarrow>
    lv_step i c (c\<lparr>lv_lock := l, lv_pc := (lv_pc c)(i := Holding opn)\<rparr>)"
| load: "lv_pc c i = Holding opn \<Longrightarrow>
    lv_step i c (c\<lparr>lv_pc := (lv_pc c)(i := Has_Read opn (lv_value c))\<rparr>)"
| store: "lv_pc c i = Has_Read opn v \<Longrightarrow> opn \<noteq> LV_get \<Longrightarrow>
    lv_step i c (c\<lparr>lv_value := new_value opn v, lv_pc := (lv_pc c)(i := Has_Written opn (returned opn v)),
      history := history c @ [(opn, returned opn v)]\<rparr>)"
| keep: "lv_pc c i = Has_Read LV_get v \<Longrightarrow>
    lv_step i c (c\<lparr>lv_pc := (lv_pc c)(i := Has_Written LV_get (Some v)), history := history c @ [(LV_get, Some v)]\<rparr>)"
| unlock: "lv_pc c i = Has_Written opn r \<Longrightarrow>
    lv_step i c (c\<lparr>lv_lock := UnLock i (lv_lock c), lv_pc := (lv_pc c)(i := Idle)\<rparr>)"

inductive lv_reachable :: "('i, 'v :: ring_1) locked_value \<Rightarrow> bool" where
  init: "lv_reachable LockedValue_init"
| step: "lv_reachable c \<Longrightarrow> lv_step i c c' \<Longrightarrow> lv_reachable c'"

section \<open>Mutual exclusion\<close>

fun op_of :: "'v lv_pc \<Rightarrow> 'v lv_op option" where
  "op_of Idle = None"
| "op_of (Holding opn) = Some opn"
| "op_of (Has_Read opn v) = Some opn"
| "op_of (Has_Written opn r) = Some opn"

definition writing :: "('i, 'v) locked_value \<Rightarrow> 'i \<Rightarrow> bool" where
  "writing c i \<longleftrightarrow> (\<exists>opn. op_of (lv_pc c i) = Some opn \<and> opn \<noteq> LV_get)"

definition reading :: "('i, 'v) locked_value \<Rightarrow> 'i \<Rightarrow> bool" where
  "reading c i \<longleftrightarrow> op_of (lv_pc c i) = Some LV_get"

definition lock_inv :: "('i, 'v) locked_value \<Rightarrow> bool" where
  "lock_inv c \<longleftrightarrow> (\<forall>i. writing c i \<longleftrightarrow> writer (lv_lock c) = Some i)
     \<and> (\<forall>i. reading c i \<longleftrightarrow> i \<in> readers (lv_lock c))
     \<and> posix.exclusive (lv_lock c)"

text \<open>The operations in the history, one after the other, yield the value and the results.\<close>

fun replay :: "'v :: ring_1 \<Rightarrow> ('v lv_op \<times> 'v option) list \<Rightarrow> 'v option" where
  "replay v [] = Some v"
| "replay v ((opn, r) # h) = (if r = returned opn v then replay (new_value opn v) h else None)"

lemma replay_append: "replay v (h @ h') = (case replay v h of None \<Rightarrow> None | Some v' \<Rightarrow> replay v' h')"
  by (induction v h rule: replay.induct) auto

definition value_inv :: "('i, 'v :: ring_1) locked_value \<Rightarrow> bool" where
  "value_inv c \<longleftrightarrow> replay 0 (history c) = Some (lv_value c)
     \<and> (\<forall>i opn v. lv_pc c i = Has_Read opn v \<longrightarrow> v = lv_value c)"

fun_cases take_lock_SomeE: "take_lock opn i l = Some l'"

lemma take_lock_holders:
  assumes "take_lock opn i l = Some l'"
  shows "writer l = None \<and> posix.exclusive l' \<and>
    (if opn = LV_get then writer l' = None \<and> readers l' = insert i (readers l)
     else readers l = {} \<and> writer l' = Some i \<and> readers l' = {})"
  using assms by (elim take_lock_SomeE) (auto simp: posix.exclusive_def dest!: posix.rd_lock [OF sym] posix.wr_lock [OF sym])

text \<open>A step that keeps the lock and the operation of its thread keeps mutual exclusion.\<close>

lemma lock_inv_cong:
  assumes "lock_inv c" and "lv_lock c' = lv_lock c" and "\<And>j. op_of (lv_pc c' j) = op_of (lv_pc c j)"
  shows "lock_inv c'"
  using assms(1) unfolding lock_inv_def writing_def reading_def assms(2,3) .

text \<open>So does leaving, if only the own operation ends and the lock is released.\<close>

lemma lock_inv_leave:
  assumes inv: "lock_inv c" and pc: "op_of (lv_pc c i) = Some opn" and l: "lv_lock c' = UnLock i (lv_lock c)"
    and others: "\<And>j. op_of (lv_pc c' j) = (if j = i then None else op_of (lv_pc c j))"
  shows "lock_inv c'"
proof -
  have x: "posix.exclusive (UnLock i (lv_lock c))"
    using inv by (auto simp: lock_inv_def intro: posix.exclusive_un)
  show ?thesis
  proof (cases "opn = LV_get")
    case True
    then have "reading c i" using pc by (simp add: reading_def)
    then have "writer (lv_lock c) = None" using inv by (auto simp: lock_inv_def posix.exclusive_def)
    then show ?thesis
      using inv x posix.un_reader [of "lv_lock c" i] by (auto simp: lock_inv_def writing_def reading_def l others)
  next
    case False
    then have "writing c i" using pc by (simp add: writing_def)
    then have w: "writer (lv_lock c) = Some i" using inv by (auto simp: lock_inv_def)
    then have "readers (lv_lock c) = {}" using inv by (auto simp: lock_inv_def posix.exclusive_def)
    then show ?thesis
      using inv x posix.un_writer [OF w] w by (auto simp: lock_inv_def writing_def reading_def l others)
  qed
qed

lemma value_inv_replay: "value_inv c \<Longrightarrow> replay 0 (history c) = Some (lv_value c)"
  and value_inv_loaded: "value_inv c \<Longrightarrow> lv_pc c i = Has_Read opn v \<Longrightarrow> v = lv_value c"
  by (simp_all add: value_inv_def)

lemma lv_step_inv:
  assumes "lv_step i c c'" and "lock_inv c" and "value_inv c"
  shows "lock_inv c' \<and> value_inv c'"
  using assms(1)
proof cases
  case (lock opn l)
  have "value_inv c'" using lock(1) assms(3) by (auto simp: value_inv_def)
  moreover have "lock_inv c'"
    using lock(1,2) assms(2) take_lock_holders [OF lock(3)]
    by (auto simp: lock_inv_def writing_def reading_def split: if_splits)
  ultimately show ?thesis by simp
next
  case (load opn)
  have "lock_inv c'"
    by (rule lock_inv_cong [OF assms(2)]) (simp_all add: load)
  moreover have "value_inv c'" using load(1) assms(3) by (auto simp: value_inv_def)
  ultimately show ?thesis by simp
next
  case (store opn v)
  have "lock_inv c'"
    by (rule lock_inv_cong [OF assms(2)]) (simp_all add: store)
  moreover have w: "writing c i" using store by (simp add: writing_def)
  have "lv_pc c j \<noteq> Has_Read opn' v'" if "j \<noteq> i" for j opn' v'
  proof
    assume "lv_pc c j = Has_Read opn' v'"
    then have "writing c j \<or> reading c j" by (simp add: writing_def reading_def)
    then show False using w that assms(2) by (auto simp: lock_inv_def posix.exclusive_def)
  qed
  then have "value_inv c'"
    using store value_inv_replay [OF assms(3)] value_inv_loaded [OF assms(3) store(2)]
    by (auto simp: value_inv_def replay_append)
  ultimately show ?thesis by simp
next
  case (keep v)
  have "lock_inv c'"
    by (rule lock_inv_cong [OF assms(2)]) (simp_all add: keep)
  moreover have "value_inv c'"
    using keep(1) assms(3) value_inv_loaded [OF assms(3) keep(2)] by (auto simp: value_inv_def replay_append)
  ultimately show ?thesis by simp
next
  case (unlock opn r)
  have "lock_inv c'"
    by (rule lock_inv_leave [OF assms(2), of i opn]) (simp_all add: unlock)
  moreover have "value_inv c'" using unlock(1) assms(3) by (auto simp: value_inv_def)
  ultimately show ?thesis by simp
qed

lemma lv_reachable_inv: "lv_reachable c \<Longrightarrow> lock_inv c \<and> value_inv c"
proof (induction rule: lv_reachable.induct)
  case init
  then show ?case
    using posix.unlocked posix.exclusive_unlocked
    by (auto simp: lock_inv_def value_inv_def writing_def reading_def LockedValue_init_def)
next
  case (step c i c')
  then show ?case using lv_step_inv [OF step(2)] by simp
qed

text \<open>A thread that holds the lock can finish its operation without waiting for anyone.\<close>

lemma lv_stored_finishes:
  assumes "lv_pc c i = Has_Written opn r"
  shows "\<exists>c'. (lv_step i)\<^sup>*\<^sup>* c c' \<and> lv_pc c' i = Idle"
  using lv_step.unlock [OF assms]
  by (intro exI [of _ "c\<lparr>lv_lock := UnLock i (lv_lock c), lv_pc := (lv_pc c)(i := Idle)\<rparr>"] conjI r_into_rtranclp) simp_all

lemma lv_loaded_finishes:
  assumes "lv_pc c i = Has_Read opn v"
  shows "\<exists>c'. (lv_step i)\<^sup>*\<^sup>* c c' \<and> lv_pc c' i = Idle"
proof -
  obtain c1 r where s: "lv_step i c c1" "lv_pc c1 i = Has_Written opn r"
  proof (cases "opn = LV_get")
    case True
    then show thesis using that [OF lv_step.keep [of c i v]] assms by simp
  next
    case False
    then show thesis using that [OF lv_step.store [OF assms False]] by simp
  qed
  then show ?thesis using lv_stored_finishes [OF s(2)] by (blast intro: converse_rtranclp_into_rtranclp)
qed

lemma lv_finishes:
  assumes "lv_pc c i \<noteq> Idle"
  shows "\<exists>c'. (lv_step i)\<^sup>*\<^sup>* c c' \<and> lv_pc c' i = Idle"
proof (cases "lv_pc c i")
  case (Holding opn)
  have "\<exists>c'. (lv_step i)\<^sup>*\<^sup>* (c\<lparr>lv_pc := (lv_pc c)(i := Has_Read opn (lv_value c))\<rparr>) c' \<and> lv_pc c' i = Idle"
    by (rule lv_loaded_finishes) simp
  then show ?thesis using lv_step.load [OF Holding] by (blast intro: converse_rtranclp_into_rtranclp)
qed (use assms lv_stored_finishes lv_loaded_finishes in auto)

text \<open>Only finitely many threads are inside an operation, and they can all be brought to its end.\<close>

definition any_step :: "('i, 'v :: ring_1) locked_value \<Rightarrow> ('i, 'v) locked_value \<Rightarrow> bool" where
  "any_step c c' \<longleftrightarrow> (\<exists>i. lv_step i c c')"

lemma lv_step_others: "lv_step i c c' \<Longrightarrow> j \<noteq> i \<Longrightarrow> lv_pc c' j = lv_pc c j"
  by (induction rule: lv_step.cases) auto

lemma lv_steps_others: "(lv_step i)\<^sup>*\<^sup>* c c' \<Longrightarrow> j \<noteq> i \<Longrightarrow> lv_pc c' j = lv_pc c j"
  by (induction rule: rtranclp_induct) (auto simp: lv_step_others)

definition busy :: "('i, 'v) locked_value \<Rightarrow> 'i set" where
  "busy c = {i. lv_pc c i \<noteq> Idle}"

lemma lv_reachable_finite: "lv_reachable c \<Longrightarrow> finite (busy c)"
proof (induction rule: lv_reachable.induct)
  case init
  then show ?case by (simp add: busy_def LockedValue_init_def)
next
  case (step c i c')
  have "busy c' \<subseteq> insert i (busy c)"
    using lv_step_others [OF step(2)] by (auto simp: busy_def)
  then show ?case using step(3) by (simp add: finite_subset)
qed

lemma lv_steps_any: "(lv_step i)\<^sup>*\<^sup>* c c' \<Longrightarrow> any_step\<^sup>*\<^sup>* c c'"
  by (erule rtranclp_mono [THEN predicate2D, rotated]) (auto simp: any_step_def)

lemma lv_steps_reachable: "any_step\<^sup>*\<^sup>* c c' \<Longrightarrow> lv_reachable c \<Longrightarrow> lv_reachable c'"
  by (induction rule: rtranclp_induct) (auto simp: any_step_def intro: lv_reachable.step)

lemma lv_all_finish:
  assumes "lv_reachable c"
  shows "\<exists>c'. any_step\<^sup>*\<^sup>* c c' \<and> (\<forall>i. lv_pc c' i = Idle)"
  using assms
proof (induction "card (busy c)" arbitrary: c rule: less_induct)
  case less
  show ?case
  proof (cases "busy c = {}")
    case True
    then show ?thesis by (auto simp: busy_def)
  next
    case False
    then obtain i where i: "lv_pc c i \<noteq> Idle" by (auto simp: busy_def)
    obtain c1 where c1: "(lv_step i)\<^sup>*\<^sup>* c c1" "lv_pc c1 i = Idle" by (rule exE [OF lv_finishes [OF i]]) (elim conjE, rule that)
    have "busy c1 \<subset> busy c"
    proof (rule psubsetI)
      have "lv_pc c j \<noteq> Idle" if "lv_pc c1 j \<noteq> Idle" for j
        using that lv_steps_others [OF c1(1), of j] c1(2) by (cases "j = i") simp_all
      then show "busy c1 \<subseteq> busy c" unfolding busy_def by blast
      show "busy c1 \<noteq> busy c" using c1(2) i unfolding busy_def by blast
    qed
    then have "card (busy c1) < card (busy c)" using lv_reachable_finite [OF less.prems] by (simp add: psubset_card_mono)
    moreover have a: "any_step\<^sup>*\<^sup>* c c1" by (rule lv_steps_any [OF c1(1)])
    moreover have "lv_reachable c1" by (rule lv_steps_reachable [OF a less.prems])
    ultimately obtain c' where "any_step\<^sup>*\<^sup>* c1 c'" "\<forall>i. lv_pc c' i = Idle" using less.hyps by blast
    then show ?thesis using rtranclp_trans [OF a] by blast
  qed
qed

text \<open>Then the lock is free.\<close>

lemma all_idle_free:
  assumes "lv_reachable c" and "\<forall>i. lv_pc c i = Idle"
  shows "lv_lock c = RWLock_init"
proof -
  have "lock_inv c" using lv_reachable_inv [OF assms(1)] by simp
  then have "writer (lv_lock c) = None" "readers (lv_lock c) = {}"
    using assms(2) by (auto simp: lock_inv_def writing_def reading_def)
  then show ?thesis by (simp add: RWLock_init_def)
qed

section \<open>Destroying the lock\<close>

text \<open>Destroying a POSIX lock that a thread holds is undefined (\<open>None\<close>).\<close>

definition RWLock_delete :: "'i rwlock \<Rightarrow> unit option" where
  "RWLock_delete l = (if readers l = {} \<and> writer l = None then Some () else None)"

lemma all_idle_deletable: "lv_reachable c \<Longrightarrow> \<forall>i. lv_pc c i = Idle \<Longrightarrow> RWLock_delete (lv_lock c) = Some ()"
  by (simp add: all_idle_free RWLock_delete_def RWLock_init_def)

section \<open>The mutex\<close>

text \<open>The interface \<open>ILock\<close>, with what its users rely on: a free lock can be taken.\<close>

locale i_lock = exclusive_lock +
  fixes free :: 'b
  assumes holder_free: "holder free = None"
    and lock_free: "holder m = None \<Longrightarrow> lock i m \<noteq> None"
begin

lemma handed_over: "lock i m = Some m' \<Longrightarrow> \<exists>m''. lock j (unlock i m') = Some m'' \<and> holder m'' = Some j"
  using lock_holder [of i m m'] unlock_own [of m' i] lock_free [of "unlock i m'" j] lock_holder by fastforce

end

text \<open>\<open>CMutex\<close> is the thread that has the mutex. \<open>Lock\<close> waits (\<open>None\<close>) while another thread has it.\<close>

type_synonym 'i cmutex = "'i option"

definition CMutex_new :: "'i cmutex" where
  "CMutex_new = None"

definition CMutex_Lock :: "'i \<Rightarrow> 'i cmutex \<Rightarrow> 'i cmutex option" where
  "CMutex_Lock i m = (if m = None then Some (Some i) else None)"

definition CMutex_Unlock :: "'i \<Rightarrow> 'i cmutex \<Rightarrow> 'i cmutex" where
  "CMutex_Unlock i m = (if m = Some i then None else m)"

definition CMutex_delete :: "'i cmutex \<Rightarrow> unit option" where
  "CMutex_delete m = (if m = None then Some () else None)"

interpretation mutex: i_lock CMutex_Lock CMutex_Unlock id CMutex_new
  by unfold_locales (auto simp: CMutex_new_def CMutex_Lock_def CMutex_Unlock_def split: if_splits)

lemma mutex_deletable: "CMutex_Lock i m = Some m' \<Longrightarrow> CMutex_delete m' = None \<and> CMutex_delete (CMutex_Unlock i m') = Some ()"
  using mutex.lock_holder [of i m m'] mutex.unlock_own [of m' i] by (simp add: CMutex_delete_def)

end
