(* ===== verification/Semaphore.thy ===== *)
theory Semaphore
  imports Prelude
begin

text \<open>
  \<open>PosixSemaphore\<close> of \<^verbatim>\<open>app/Lock.h\<close> and \<^verbatim>\<open>app/Lock.cpp\<close> over named POSIX semaphores: files with an owner,
  permissions and a count, which processes open by name. Threads that enter a section by \<open>wait\<close> and
  leave it by \<open>post\<close> are never more than the initial value.
\<close>

section \<open>Named semaphores\<close>

record sem_file =
  sem_mode :: u32
  sem_owner :: nat
  sem_count :: nat

record sems =
  sem_files :: "string \<rightharpoonup> sem_file"
  sem_handles :: "u64 \<rightharpoonup> string"

text \<open>The process: its user, its file mode mask, and where the library puts the next semaphore object.\<close>

record sem_proc =
  uid :: nat
  umask :: u32
  new_handle :: "sems \<Rightarrow> u64"

definition O_CREAT :: u32 where
  "O_CREAT = 64"

definition O_RDWR :: u32 where
  "O_RDWR = 2"

definition SEM_VALUE_MAX :: nat where
  "SEM_VALUE_MAX = 2147483647"

text \<open>
  Opening a semaphore that exists needs permission to read and to write it. Groups are left out: a
  user is the owner, another one, or the administrator (number 0).
\<close>

definition may_open :: "nat \<Rightarrow> sem_file \<Rightarrow> bool" where
  "may_open u f \<longleftrightarrow> u = 0 \<or> (if sem_owner f = u then bit (sem_mode f) 8 \<and> bit (sem_mode f) 7
     else bit (sem_mode f) 2 \<and> bit (sem_mode f) 1)"

definition sem_open :: "sem_proc \<Rightarrow> string \<Rightarrow> u32 \<Rightarrow> u32 \<Rightarrow> u32 \<Rightarrow> (sems, u64) prog" where
  "sem_open P name oflag mode val s =
     (let p = new_handle P s; s' = s\<lparr>sem_handles := (sem_handles s)(p \<mapsto> name)\<rparr> in
      if p = 0 then Inr (0, s)
      else case sem_files s name of
        None \<Rightarrow>
          if oflag AND O_CREAT \<noteq> 0 \<and> unat val \<le> SEM_VALUE_MAX then
            Inr (p, s'\<lparr>sem_files := (sem_files s)(name \<mapsto>
              \<lparr>sem_mode = mode AND NOT (umask P), sem_owner = uid P, sem_count = unat val\<rparr>)\<rparr>)
          else Inr (0, s)
      | Some f \<Rightarrow> if may_open (uid P) f then Inr (p, s') else Inr (0, s))"

definition count_of :: "u64 \<Rightarrow> sems \<Rightarrow> nat option" where
  "count_of p s = (case sem_handles s p of None \<Rightarrow> None | Some n \<Rightarrow> map_option sem_count (sem_files s n))"

definition set_count :: "u64 \<Rightarrow> nat \<Rightarrow> sems \<Rightarrow> sems" where
  "set_count p c s = (case sem_handles s p of None \<Rightarrow> s
     | Some n \<Rightarrow> s\<lparr>sem_files := (sem_files s)(n := map_option (sem_count_update (\<lambda>_. c)) (sem_files s n))\<rparr>)"

text \<open>
  A semaphore that is not open is a bad pointer. \<open>sem_wait\<close> on a count of 0 waits: the call is not
  enabled, which is \<open>None\<close>.
\<close>

definition sem_wait :: "u64 \<Rightarrow> sems \<Rightarrow> (crash + int \<times> sems) option" where
  "sem_wait p s = (case count_of p s of None \<Rightarrow> Some (Inl Bad_Pointer)
     | Some 0 \<Rightarrow> None | Some (Suc c) \<Rightarrow> Some (Inr (0, set_count p c s)))"

definition sem_post :: "u64 \<Rightarrow> (sems, int) prog" where
  "sem_post p s = (case count_of p s of None \<Rightarrow> Inl Bad_Pointer
     | Some c \<Rightarrow> if c < SEM_VALUE_MAX then Inr (0, set_count p (Suc c) s) else Inr (- 1, s))"

text \<open>The result and what has been stored; the value is stored only when the call succeeds.\<close>

definition sem_getvalue :: "u64 \<Rightarrow> (sems, int \<times> int option) prog" where
  "sem_getvalue p s = (case count_of p s of None \<Rightarrow> Inr ((- 1, None), s) | Some c \<Rightarrow> Inr ((0, Some (int c)), s))"

definition sem_close :: "u64 \<Rightarrow> (sems, int) prog" where
  "sem_close p s = (if sem_handles s p = None then Inr (- 1, s) else Inr (0, s\<lparr>sem_handles := (sem_handles s)(p := None)\<rparr>))"

section \<open>The class\<close>

text \<open>
  The constructor passes \<open>O_RDWR\<close> as the permissions of a new semaphore. A failed assertion stops
  the program. \<open>getValue\<close> returns a local variable even if the call has not set it; \<open>junk\<close> is its
  initial content.
\<close>

definition PosixSemaphore_new :: "sem_proc \<Rightarrow> u32 \<Rightarrow> string \<Rightarrow> (sems, u64) prog" where
  "PosixSemaphore_new P iValue pName =
     (let mode = O_RDWR in
      mbind (sem_open P pName O_CREAT mode iValue) (\<lambda>pSem.
      mthen (bug_on (pSem = 0)) (ret pSem)))"

definition PosixSemaphore_delete :: "u64 \<Rightarrow> (sems, unit) prog" where
  "PosixSemaphore_delete pSem = mbind (sem_close pSem) (\<lambda>_. ret ())"

definition PosixSemaphore_wait :: "u64 \<Rightarrow> sems \<Rightarrow> (crash + int \<times> sems) option" where
  "PosixSemaphore_wait pSem = sem_wait pSem"

definition PosixSemaphore_post :: "u64 \<Rightarrow> (sems, int) prog" where
  "PosixSemaphore_post pSem = sem_post pSem"

definition PosixSemaphore_getValue :: "int \<Rightarrow> u64 \<Rightarrow> (sems, int) prog" where
  "PosixSemaphore_getValue junk pSem =
     mbind (sem_getvalue pSem) (\<lambda>(r, v). let iValue = (case v of None \<Rightarrow> junk | Some x \<Rightarrow> x) in ret iValue)"

section \<open>Opening\<close>

lemma new_semaphore:
  assumes "new_handle P s \<noteq> 0" and "sem_files s name = None" and "unat v \<le> SEM_VALUE_MAX"
  shows "runs (PosixSemaphore_new P v name) s (\<lambda>p s'. p = new_handle P s \<and> count_of p s' = Some (unat v)
    \<and> sem_files s' name = Some \<lparr>sem_mode = O_RDWR AND NOT (umask P), sem_owner = uid P, sem_count = unat v\<rparr>)"
  using assms by (simp add: runs_def PosixSemaphore_new_def sem_open_def Let_def O_CREAT_def count_of_def prog_defs)

text \<open>
  With these permissions the semaphore cannot be opened again by the user who has created it, unless
  that is the administrator: the second constructor stops the program.
\<close>

lemma reopened_semaphore_stops:
  assumes "uid P \<noteq> 0" and "PosixSemaphore_new P v name s = Inr (p, s1)" and "sem_files s name = None"
    and "sem_files s2 name = sem_files s1 name"
  shows "PosixSemaphore_new P v' name s2 = Inl Bug_On"
proof -
  have p: "new_handle P s \<noteq> 0" "unat v \<le> SEM_VALUE_MAX"
    using assms(2,3) by (auto simp: PosixSemaphore_new_def sem_open_def Let_def prog_defs O_CREAT_def split: if_splits)
  have f: "sem_files s1 name = Some \<lparr>sem_mode = O_RDWR AND NOT (umask P), sem_owner = uid P, sem_count = unat v\<rparr>"
    using runsD [OF new_semaphore [OF p(1) assms(3) p(2)] assms(2)] by simp
  have "\<not> bit (O_RDWR AND NOT (umask P)) 8" by (simp add: bit_simps O_RDWR_def)
  then show ?thesis
    using assms(1,4) f by (simp add: PosixSemaphore_new_def sem_open_def Let_def may_open_def prog_defs)
qed

section \<open>Counting\<close>

lemma count_set [simp]: "count_of p s = Some c \<Longrightarrow> count_of p (set_count p c' s) = Some c'"
  by (auto simp: count_of_def set_count_def split: option.splits)

text \<open>Threads that wait to enter a section and post when they leave it.\<close>

inductive section_step :: "u64 \<Rightarrow> 'i \<Rightarrow> sems \<times> 'i set \<Rightarrow> sems \<times> 'i set \<Rightarrow> bool" for p i where
  enter: "i \<notin> ins \<Longrightarrow> PosixSemaphore_wait p s = Some (Inr (rc, s')) \<Longrightarrow> section_step p i (s, ins) (s', insert i ins)"
| leave: "i \<in> ins \<Longrightarrow> PosixSemaphore_post p s = Inr (rc, s') \<Longrightarrow> section_step p i (s, ins) (s', ins - {i})"

inductive section_reachable :: "u64 \<Rightarrow> sems \<Rightarrow> sems \<times> 'i set \<Rightarrow> bool" for p s0 where
  start: "section_reachable p s0 (s0, {})"
| step: "section_reachable p s0 c \<Longrightarrow> section_step p i c c' \<Longrightarrow> section_reachable p s0 c'"

definition section_inv :: "u64 \<Rightarrow> nat \<Rightarrow> sems \<times> 'i set \<Rightarrow> bool" where
  "section_inv p n = (\<lambda>(s, ins). finite ins \<and> card ins \<le> n \<and> count_of p s = Some (n - card ins))"

lemma wait_enabled: "count_of p s = Some (Suc c) \<Longrightarrow> PosixSemaphore_wait p s = Some (Inr (0, set_count p c s))"
  by (simp add: PosixSemaphore_wait_def sem_wait_def)

lemma wait_blocked: "count_of p s = Some 0 \<Longrightarrow> PosixSemaphore_wait p s = None"
  by (simp add: PosixSemaphore_wait_def sem_wait_def)

lemma post_enabled:
  "count_of p s = Some c \<Longrightarrow> c < SEM_VALUE_MAX \<Longrightarrow> PosixSemaphore_post p s = Inr (0, set_count p (Suc c) s)"
  by (simp add: PosixSemaphore_post_def sem_post_def)

lemma section_step_inv:
  assumes "section_step p i c c'" and "section_inv p n c" and "n \<le> SEM_VALUE_MAX"
  shows "section_inv p n c'"
  using assms(1)
proof cases
  case (enter ins s rc s')
  have inv: "finite ins" "card ins \<le> n" "count_of p s = Some (n - card ins)"
    using assms(2) enter(1) by (simp_all add: section_inv_def)
  then obtain k where k: "n - card ins = Suc k"
    using enter(4) wait_blocked [of p s] by (cases "n - card ins") auto
  then have s': "s' = set_count p k s" using wait_enabled [of p s k] inv(3) enter(4) by simp
  have "card (insert i ins) = Suc (card ins)" using enter(3) inv(1) by simp
  then have "card (insert i ins) \<le> n \<and> n - card (insert i ins) = k" using k by arith
  then show ?thesis using inv k by (simp add: enter(2) s' section_inv_def)
next
  case (leave ins s rc s')
  have inv: "finite ins" "card ins \<le> n" "count_of p s = Some (n - card ins)"
    using assms(2) leave(1) by (simp_all add: section_inv_def)
  have c: "0 < card ins" using leave(3) inv(1) by (auto simp: card_gt_0_iff)
  then have "n - card ins < SEM_VALUE_MAX" using assms(3) inv(2) by simp
  then have s': "s' = set_count p (Suc (n - card ins)) s" using post_enabled [OF inv(3)] leave(4) by simp
  have "card (ins - {i}) = card ins - 1" using leave(3) inv(1) by (simp add: card_Diff_singleton)
  then have "card (ins - {i}) \<le> n \<and> n - card (ins - {i}) = Suc (n - card ins)" using c inv(2) by arith
  then show ?thesis using inv by (simp add: leave(2) s' section_inv_def)
qed

lemma section_reachable_inv:
  assumes "section_reachable p s0 c" and "count_of p s0 = Some n" and "n \<le> SEM_VALUE_MAX"
  shows "section_inv p n c"
  using assms(1)
proof (induction rule: section_reachable.induct)
  case start
  show ?case using assms(2) by (simp add: section_inv_def)
next
  case (step c i c')
  show ?case by (rule section_step_inv [OF step(2) step.IH assms(3)])
qed

text \<open>What the invariant gives: the value that is left, and who can go on.\<close>

lemma value_left: "count_of p s = Some c \<Longrightarrow> PosixSemaphore_getValue junk p s = Inr (int c, s)"
  by (simp add: PosixSemaphore_getValue_def sem_getvalue_def prog_defs)

lemma enters_iff:
  assumes "section_inv p n (s, ins)" and "i \<notin> ins"
  shows "(\<exists>s'. section_step p i (s, ins) (s', insert i ins)) \<longleftrightarrow> card ins < n"
proof
  assume "\<exists>s'. section_step p i (s, ins) (s', insert i ins)"
  then obtain s' where "section_step p i (s, ins) (s', insert i ins)" ..
  then show "card ins < n" using assms wait_blocked [of p s]
    by cases (cases "n - card ins"; auto simp: section_inv_def)+
next
  assume "card ins < n"
  then obtain k where "n - card ins = Suc k" by (cases "n - card ins") auto
  then have "PosixSemaphore_wait p s = Some (Inr (0, set_count p k s))"
    using assms(1) wait_enabled by (simp add: section_inv_def)
  from section_step.enter [OF assms(2) this] show "\<exists>s'. section_step p i (s, ins) (s', insert i ins)" ..
qed

lemma leaves:
  assumes "section_inv p n (s, ins)" and "n \<le> SEM_VALUE_MAX" and "i \<in> ins"
  shows "\<exists>s'. section_step p i (s, ins) (s', ins - {i})"
proof -
  have "0 < card ins" "card ins \<le> n" "count_of p s = Some (n - card ins)"
    using assms(1,3) by (auto simp: section_inv_def card_gt_0_iff)
  then have "PosixSemaphore_post p s = Inr (0, set_count p (Suc (n - card ins)) s)"
    using post_enabled assms(2) by simp
  from section_step.leave [OF assms(3) this] show ?thesis ..
qed

lemma new_semaphore_counts:
  assumes "PosixSemaphore_new P v name s = Inr (p, s0)" and "sem_files s name = None"
  shows "unat v \<le> SEM_VALUE_MAX \<and> count_of p s0 = Some (unat v)"
  using assms by (auto simp: PosixSemaphore_new_def sem_open_def Let_def count_of_def prog_defs split: if_splits)

end
