(* ===== verification/AppProps.thy ===== *)
theory AppProps
  imports Threads Locks Semaphore LogUtils
begin

text \<open>
  Properties of the application classes: the locked value and the semaphore of \<^verbatim>\<open>app/Lock.h\<close>, the thread class of
  \<^verbatim>\<open>app/Thread.cpp\<close> and the dump of \<^verbatim>\<open>app/LogUtils.cpp\<close>.
\<close>

section \<open>The locked value\<close>

text \<open>
  C36: In every interleaving of the threads that use a locked value, a thread that is changing the
  value is alone, and the operations, in the order in which they last accessed the value, are a
  sequential run from 0: each has returned what it returns there, and the value is the result.
\<close>

theorem locked_value_atomic:
  assumes "lv_reachable c"
  shows "(writing c i \<and> j \<noteq> i \<longrightarrow> lv_pc c j = Idle) \<and> replay 0 (history c) = Some (lv_value c)"
proof -
  have i: "lock_inv c" "value_inv c" using lv_reachable_inv [OF assms] by simp_all
  have "op_of (lv_pc c j) = None" if "writing c i" "j \<noteq> i"
    using i(1) that by (cases "op_of (lv_pc c j)") (auto simp: lock_inv_def writing_def reading_def posix.exclusive_def)
  then show ?thesis using value_inv_replay [OF i(2)] by (cases "lv_pc c j") auto
qed

lemma demo_locked:
  obtains c :: "(nat, int) locked_value" where "lv_reachable c" "writing c 0" "history c = []"
proof
  let ?c = "LockedValue_init :: (nat, int) locked_value"
  let ?c' = "?c\<lparr>lv_lock := (lv_lock ?c)\<lparr>writer := Some 0\<rparr>, lv_pc := (lv_pc ?c)(0 := Holding LV_increase)\<rparr>"
  have "lv_step 0 ?c ?c'"
    by (rule lv_step.lock) (simp_all add: LockedValue_init_def RWLock_init_def WriteLock_def)
  then show "lv_reachable ?c'" by (rule lv_reachable.step [OF lv_reachable.init])
  show "writing ?c' 0" by (simp add: writing_def)
  show "history ?c' = []" by (simp add: LockedValue_init_def)
qed

theorem locked_value_atomic_witness:
  "\<exists>c :: (nat, int) locked_value. lv_reachable c \<and> writing c 0 \<and> lv_pc c 1 = Idle \<and> lv_value c = 0"
proof (rule demo_locked)
  fix c :: "(nat, int) locked_value"
  assume c: "lv_reachable c" "writing c 0" "history c = []"
  show ?thesis using locked_value_atomic [OF c(1), of 0 1] c by (intro exI [of _ c]) simp
qed

text \<open>
  C37: The lock never blocks for good: whatever the threads are doing, there is a way to go on in
  which all of them finish; then the lock is free and every thread can start any operation.
\<close>

theorem locked_value_progress:
  assumes "lv_reachable c"
  shows "\<exists>c'. any_step\<^sup>*\<^sup>* c c' \<and> (\<forall>i. lv_pc c' i = Idle) \<and> lv_lock c' = RWLock_init
    \<and> RWLock_delete (lv_lock c') = Some () \<and> (\<forall>i opn. \<exists>c''. lv_step i c' c'' \<and> lv_pc c'' i = Holding opn)"
proof -
  obtain c' where c': "any_step\<^sup>*\<^sup>* c c'" "\<forall>i. lv_pc c' i = Idle"
    by (rule exE [OF lv_all_finish [OF assms]]) (elim conjE, rule that)
  have f: "lv_lock c' = RWLock_init"
    by (rule all_idle_free [OF lv_steps_reachable [OF c'(1) assms] c'(2)])
  have "\<exists>c''. lv_step i c' c'' \<and> lv_pc c'' i = Holding opn" for i opn
  proof -
    obtain l where "take_lock opn i (lv_lock c') = Some l"
      using posix.unlocked_enables [of i] by (cases opn) (auto simp: f)
    from lv_step.lock [OF c'(2) [rule_format] this]
    have "lv_step i c' (c'\<lparr>lv_lock := l, lv_pc := (lv_pc c')(i := Holding opn)\<rparr>)" .
    moreover have "lv_pc (c'\<lparr>lv_lock := l, lv_pc := (lv_pc c')(i := Holding opn)\<rparr>) i = Holding opn" by simp
    ultimately show ?thesis by blast
  qed
  then have "\<forall>i opn. \<exists>c''. lv_step i c' c'' \<and> lv_pc c'' i = Holding opn" by simp
  moreover have "RWLock_delete (lv_lock c') = Some ()"
    by (rule all_idle_deletable [OF lv_steps_reachable [OF c'(1) assms] c'(2)])
  ultimately show ?thesis using c' f by (intro exI [of _ c'] conjI) assumption+
qed

theorem locked_value_progress_witness:
  "\<exists>c c' :: (nat, int) locked_value. writing c 0 \<and> any_step\<^sup>*\<^sup>* c c' \<and> lv_lock c' = RWLock_init"
proof (rule demo_locked)
  fix c :: "(nat, int) locked_value"
  assume c: "lv_reachable c" "writing c 0"
  show ?thesis
    by (rule exE [OF locked_value_progress [OF c(1)]], rule exI [of _ c]) (use c(2) in auto)
qed

section \<open>The semaphore\<close>

text \<open>
  C38: A new semaphore lets in as many threads as its value says: while threads wait to enter and
  post to leave, in any order, there are never more of them inside, \<open>getValue\<close> tells how many more
  could enter, one outside can enter exactly if that is not zero, and one inside can always leave.
\<close>

theorem semaphore_bounds:
  assumes "PosixSemaphore_new P v name s = Inr (p, s0)" and "sem_files s name = None"
    and "section_reachable p s0 (s', ins)"
  shows "finite ins \<and> card ins \<le> unat v \<and> PosixSemaphore_getValue junk p s' = Inr (int (unat v - card ins), s')
    \<and> (i \<notin> ins \<longrightarrow> (\<exists>s''. section_step p i (s', ins) (s'', insert i ins)) \<longleftrightarrow> card ins < unat v)
    \<and> (i \<in> ins \<longrightarrow> (\<exists>s''. section_step p i (s', ins) (s'', ins - {i})))"
proof -
  have v: "unat v \<le> SEM_VALUE_MAX" "count_of p s0 = Some (unat v)"
    using new_semaphore_counts [OF assms(1,2)] by simp_all
  have inv: "section_inv p (unat v) (s', ins)" by (rule section_reachable_inv [OF assms(3) v(2,1)])
  then have "finite ins" "card ins \<le> unat v" "count_of p s' = Some (unat v - card ins)"
    by (simp_all add: section_inv_def)
  then show ?thesis using value_left enters_iff [OF inv] leaves [OF inv v(1)] by simp
qed

definition demo_sem_proc :: sem_proc where
  "demo_sem_proc = \<lparr>uid = 1000, umask = 0x12, new_handle = (\<lambda>_. 0x1000)\<rparr>"

theorem semaphore_bounds_witness:
  "\<exists>s0 s'. PosixSemaphore_new demo_sem_proc 1 ''sem'' \<lparr>sem_files = Map.empty, sem_handles = Map.empty\<rparr> = Inr (0x1000, s0)
    \<and> section_reachable 0x1000 s0 (s', {7 :: nat})
    \<and> \<not> (\<exists>s''. section_step 0x1000 (8 :: nat) (s', {7}) (s'', {7, 8}))
    \<and> (\<exists>s''. section_step 0x1000 (7 :: nat) (s', {7}) (s'', {}))"
proof -
  let ?s = "\<lparr>sem_files = Map.empty, sem_handles = Map.empty\<rparr> :: sems"
  have n: "new_handle demo_sem_proc ?s = 0x1000" by (simp add: demo_sem_proc_def)
  obtain s0 where s0: "PosixSemaphore_new demo_sem_proc 1 ''sem'' ?s = Inr (0x1000, s0)" "count_of 0x1000 s0 = Some 1"
    using new_semaphore [of demo_sem_proc ?s "''sem''" 1]
    by (auto simp: n SEM_VALUE_MAX_def runs_def split: sum.splits)
  have "section_step 0x1000 (7 :: nat) (s0, {}) (set_count 0x1000 0 s0, {7})"
    by (rule section_step.enter) (simp_all add: wait_enabled s0(2))
  then have r: "section_reachable 0x1000 s0 (set_count 0x1000 0 s0, {7 :: nat})"
    by (rule section_reachable.step [OF section_reachable.start])
  have "\<not> (\<exists>s''. section_step 0x1000 (8 :: nat) (set_count 0x1000 0 s0, {7}) (s'', {7, 8}))"
    using semaphore_bounds [OF s0(1) _ r, where i = 8] by (simp add: insert_commute)
  moreover have "\<exists>s''. section_step 0x1000 (7 :: nat) (set_count 0x1000 0 s0, {7}) (s'', {})"
    using semaphore_bounds [OF s0(1) _ r, where i = 7] by simp
  ultimately show ?thesis using s0(1) r by blast
qed

section \<open>The thread class\<close>


definition demo_papi :: papi where
  "demo_papi = \<lparr>p_create = (\<lambda>_. (0, 7)), p_join = (\<lambda>_ _. 0), p_detach = (\<lambda>_ _. 0)\<rparr>"


text \<open>
  An object that is used again after a join keeps the flag \<open>m_detached\<close>: its second thread is never
  joined nor detached. And a join after a detach is passed on to \<open>pthread_join\<close>.
\<close>

lemma restarted_thread_leaks:
  "case thread_life demo_papi ''worker'' [U_start, U_join, U_start] of Inl _ \<Rightarrow> False
    | Inr (_, t) \<Rightarrow> lawful (calls t) \<and> \<not> reaped (calls t)"
proof -
  have "case thread_life demo_papi ''worker'' [U_start, U_join, U_start] of Inl _ \<Rightarrow> False
    | Inr (_, t) \<Rightarrow> calls t = [P_create 0 7, P_join 7 0, P_create 0 7, P_cancel 7]"
    by code_simp
  then show ?thesis by (auto simp: lawful_def reaped_def split: sum.splits if_splits)
qed

lemma joined_after_detach:
  "case thread_life demo_papi ''worker'' [U_start, U_detach, U_join] of Inl _ \<Rightarrow> False
    | Inr (_, t) \<Rightarrow> \<not> lawful (calls t)"
proof -
  have "case thread_life demo_papi ''worker'' [U_start, U_detach, U_join] of Inl _ \<Rightarrow> False
    | Inr (_, t) \<Rightarrow> calls t = [P_create 0 7, P_detach 7 0, P_join 7 0]"
    by code_simp
  then show ?thesis by (auto simp: lawful_def split: sum.splits)
qed

section \<open>The hexadecimal dump\<close>

text \<open>
  C40: A dump of the first bytes of a buffer reads nothing beyond them, and although it leaves out
  the lines that repeat the line before, the bytes can be read back from its text.
\<close>

theorem hex_dump_roundtrip:
  assumes "sz \<le> length buf" and "sz < 2 ^ 63"
  shows "runs (hex_dump buf (int sz)) [] (\<lambda>_ out. undump out = take sz buf)"
  by (rule hex_dump_runs [OF assms(1)]) (use assms(2) in simp)

theorem hex_dump_roundtrip_witness:
  "runs (hex_dump (replicate 48 0 @ [0x41, 0x7F]) (int 49)) [] (\<lambda>_ out. undump out = replicate 48 0 @ [0x41])"
  using hex_dump_roundtrip [of 49 "replicate 48 0 @ [0x41, 0x7F]"] by simp

end
