(* ===== verification/FileProps.thy ===== *)
theory FileProps
  imports DemoKernel
begin

text \<open>
  Properties of the device files and of loading: the tables of file operations and what calls through
  them can do, loading with devices present, and the dump of a list.
\<close>

section \<open>Device files\<close>

text \<open>A run of the demonstration kernel: the module is loaded and the host-to-card device is opened.\<close>

lemma demo_load:
  obtains w0 where "xpcie_init demo_kernel demo_world = Inr (0, w0)"
    and "reaches_ops demo_kernel (trace w0) DRV_NAME_H2C = Some Ref_h2c_fops" and "\<not> k_IS_ERR demo_kernel (xpcie_class_h2c w0)"
proof -
  have "runs (xpcie_init demo_kernel) demo_world (\<lambda>rc w0. rc = 0
      \<and> reaches_ops demo_kernel (trace w0) DRV_NAME_H2C = Some Ref_h2c_fops \<and> \<not> k_IS_ERR demo_kernel (xpcie_class_h2c w0))"
    by code_simp
  then show ?thesis unfolding runs_iff using that by fastforce
qed


text \<open>
  C27: Loading the module makes the three device files, each leading to the operations of its own
  name, except where the kernel could not make the file; unloading it removes them.
\<close>

theorem load_makes_files:
  assumes "chrdev_ok K" and "nodes K (trace w) = Map.empty" and "xpcie_init K w = Inr (0, w')"
  shows "reaches_ops K (trace w') DRV_NAME_USER = (if k_IS_ERR K (xpcie_class_user w') then None else Some Ref_user_fops)
    \<and> reaches_ops K (trace w') DRV_NAME_H2C = (if k_IS_ERR K (xpcie_class_h2c w') then None else Some Ref_h2c_fops)
    \<and> reaches_ops K (trace w') DRV_NAME_C2H = (if k_IS_ERR K (xpcie_class_c2h w') then None else Some Ref_c2h_fops)
    \<and> runs xpcie_exit w' (\<lambda>_ w''. reaches_ops K (trace w'') = Map.empty)"
proof -
  have f: "majors_ok w'" "nodes K (trace w') = with_files K w' Map.empty"
    using runsD [OF xpcie_init_files [OF assms(1)] assms(3)] assms(2) by simp_all
  have "nodes_ok K w'" using f(2) with_files_driver by (auto simp: nodes_ok_def)
  then have "runs xpcie_exit w' (\<lambda>_ w''. reaches_ops K (trace w'') = Map.empty)"
    by (intro runs_weaken [OF xpcie_exit_files]) (auto simp: reaches_ops_def fun_eq_iff)
  then show ?thesis
    using f(1) by (simp add: reaches_ops_def f(2) with_files_def add_node_def majors_ok_def)
qed

theorem load_makes_files_witness:
  "\<exists>w'. xpcie_init demo_kernel demo_world = Inr (0, w')
    \<and> reaches_ops demo_kernel (trace w') DRV_NAME_H2C = Some Ref_h2c_fops
    \<and> runs xpcie_exit w' (\<lambda>_ w''. reaches_ops demo_kernel (trace w'') = Map.empty)"
proof (rule demo_load)
  fix w0
  assume l: "xpcie_init demo_kernel demo_world = Inr (0, w0)" "\<not> k_IS_ERR demo_kernel (xpcie_class_h2c w0)"
  have "nodes demo_kernel (trace demo_world) = Map.empty" by (simp add: nodes_def demo_world_def)
  from load_makes_files [OF demo_chrdev_ok this l(1)] l show ?thesis by auto
qed



text \<open>
  C28: Only the write to the host-to-card device acts on memory or on the card. Every other call that
  one of the three tables handles returns, and all it has done is to map pages into its caller's
  address space; the card-to-host device handles no call but the closing of its file.
\<close>

theorem only_write_acts:
  assumes "call_handler (fops_table K f) c = Some h" and "f \<noteq> Ref_h2c_fops \<or> \<not> is_write c"
  shows "runs h w (\<lambda>rc w'. \<exists>es. w' = logged w es \<and> list_all is_remap es)
    \<and> (f = Ref_c2h_fops \<longrightarrow> c = Call_release \<and> h = xpcie_c2h_close)"
proof -
  have "f = Ref_c2h_fops \<longrightarrow> c = Call_release \<and> h = xpcie_c2h_close"
    using assms(1) by (cases c) (auto simp: xpcie_c2h_fops_def)
  then show ?thesis using table_quiet [OF assms(1)] assms(2) by (simp add: quiet_call_def)
qed

theorem only_write_acts_witness:
  "runs (xpcie_h2c_read 512) demo_world (\<lambda>rc w'. \<exists>es. w' = logged demo_world es \<and> list_all is_remap es)"
proof -
  have "call_handler (fops_table demo_kernel Ref_h2c_fops) (Call_read 512) = Some (xpcie_h2c_read 512)"
    by (simp add: xpcie_h2c_fops_def)
  from only_write_acts [OF this] show ?thesis by simp
qed

section \<open>Loading with devices present\<close>

definition stingy_kernel :: kapi where
  "stingy_kernel = demo_kernel\<lparr>k_register_chrdev := (\<lambda>w n. if n = DRV_NAME_C2H then - 16 else demo_major w)\<rparr>"

text \<open>
  A load that fails does not undo what it has done. With a kernel that refuses the third character
  device number, the driver and two numbers stay registered after the load has failed.
\<close>

lemma failed_load_leaks:
  "case xpcie_init stingy_kernel demo_world of
      Inl _ \<Rightarrow> False
    | Inr (rc, w) \<Rightarrow> rc = - 1 \<and> released (trace w) = []
        \<and> acquired (trace w) = [R_driver, R_chrdev 241 DRV_NAME_USER, R_chrdev 242 DRV_NAME_H2C]"
  by code_simp

definition demo_devices :: "pci_function list" where
  "demo_devices = [(0x6000, 0x8086, 0x1533), (0x7000, 0x10ee, 0x7038)]"



text \<open>
  C30: The driver can serve one device only: if a second one is probed while the first is bound and
  both are then removed, the registers mapped for the first stay mapped for good.
\<close>

theorem second_device_leaks:
  assumes "life_inv (Bound d1, w)" and "d2 \<noteq> 0" and "xpcie_probe K d2 w = Inr (0, w1)"
    and "k_pci_resource_len K d2 0 \<noteq> 0" and "k_pci_resource_len K d2 1 \<noteq> 0"
    and "xpcie_remove d2 w1 = Inr ((), w2)" and "xpcie_remove d1 w2 = Inr ((), w3)"
  shows "bar w3 = [0, 0] \<and> mset (iomaps (trace w3)) = mset (iounmaps (trace w3)) + mset (filter (\<lambda>p. p \<noteq> 0) (bar w))"
  using assms(1) by (intro second_device_maps [OF _ assms(2-7)]) (simp add: life_inv_def)

theorem second_device_leaks_witness:
  "\<exists>w3. runs (insmod demo_kernel demo_devices) demo_world (\<lambda>_ w. runs (xpcie_probe demo_kernel 0x8000) w (\<lambda>_ w1.
      runs (xpcie_remove 0x8000) w1 (\<lambda>_ w2. runs (xpcie_remove 0x7000) w2 (\<lambda>_ w'. w' = w3))))
    \<and> mset (iomaps (trace w3)) \<noteq> mset (iounmaps (trace w3))"
proof -
  have "runs (insmod demo_kernel demo_devices) demo_world (\<lambda>r w. r = (0, [0x7000]) \<and> filter (\<lambda>p. p \<noteq> 0) (bar w) \<noteq> []
      \<and> runs (xpcie_probe demo_kernel 0x8000) w (\<lambda>rc w1. rc = 0
      \<and> runs (xpcie_remove 0x8000) w1 (\<lambda>_ w2. runs (xpcie_remove 0x7000) w2 (\<lambda>_ _. True))))"
    by code_simp
  then obtain w w1 w2 w3 where r: "insmod demo_kernel demo_devices demo_world = Inr ((0, [0x7000]), w)"
    "filter (\<lambda>p. p \<noteq> 0) (bar w) \<noteq> []" "xpcie_probe demo_kernel 0x8000 w = Inr (0, w1)"
    "xpcie_remove 0x8000 w1 = Inr ((), w2)" "xpcie_remove 0x7000 w2 = Inr ((), w3)"
    unfolding runs_iff by auto
  have p: "present demo_devices = [0x7000]" by code_simp
  have "life_inv (Bound 0x7000, w)"
    using runsD [OF insmod_runs [OF boot_inv [OF demo_world_boot] p] r(1)] by (simp add: insmod_outcome_def)
  moreover have "k_pci_resource_len demo_kernel 0x8000 0 \<noteq> 0" "k_pci_resource_len demo_kernel 0x8000 1 \<noteq> 0"
    by (simp_all add: demo_kernel_def demo_bar_len_def)
  ultimately have "mset (iomaps (trace w3)) = mset (iounmaps (trace w3)) + mset (filter (\<lambda>p. p \<noteq> 0) (bar w))"
    using second_device_leaks [OF _ _ r(3) _ _ r(4,5)] by simp
  moreover have "mset (filter (\<lambda>p. p \<noteq> 0) (bar w)) \<noteq> {#}" using r(2) by (simp only: mset_zero_iff not_False_eq_True)
  ultimately have "mset (iomaps (trace w3)) \<noteq> mset (iounmaps (trace w3))" by (simp only: add_cancel_left_right not_False_eq_True)
  then show ?thesis using r unfolding runs_iff by auto
qed

section \<open>Dumping a list\<close>

text \<open>
  The dump of a transfer prints the words of its descriptors at ascending addresses, and the
  descriptors can be read back from it.
\<close>

lemma dump_shows_list:
  assumes "desc_arrs w (desc_virt t) = Some ds" and "desc_num t = int n" and "0 < n" and "n \<le> length ds"
  shows "runs (transfer_dump K t) w (\<lambda>ls w'. w' = w \<and> undump_descs ls = take n ds
    \<and> map dl_addr ls = map (\<lambda>k. desc_virt t + 4 * of_nat k) [0..<8 * n])"
  using assms by (simp add: runs_transfer_dump [OF assms] undump_dump dump_addresses)

end
