(* ===== verification/DmaOrder.thy ===== *)
theory DmaOrder
  imports Lifecycle
begin

text \<open>
  The order in which a driver has to do things when a device accesses memory, as an automaton that
  reads a trace: pages stay pinned and a scatter list stays mapped and allocated as long as the
  device may use them, and the engine is started only while a list is mapped. Every write obeys it.
\<close>

section \<open>The automaton\<close>

text \<open>
  The pages that are pinned, the lists that are mapped (with the arguments of the call), and whether
  the engine is running. The engine has its control register at \<open>c\<close>.
\<close>

record dma_state =
  held_pages :: "u64 multiset"
  mapped_lists :: "(u64 \<times> u64 \<times> int \<times> dma_dir) list"
  engine_on :: bool

definition dma_idle :: dma_state where
  "dma_idle = \<lparr>held_pages = {#}, mapped_lists = [], engine_on = False\<rparr>"

fun dma_step :: "u64 \<Rightarrow> event \<Rightarrow> dma_state \<Rightarrow> dma_state option" where
  "dma_step c (Mem (E_get_user_pages a n wr ps)) st = Some (st\<lparr>held_pages := held_pages st + mset ps\<rparr>)"
| "dma_step c (Mem (E_put_page p)) st =
     (if engine_on st \<or> mapped_lists st \<noteq> [] \<or> p \<notin># held_pages st then None
      else Some (st\<lparr>held_pages := held_pages st - {#p#}\<rparr>))"
| "dma_step c (Mem (E_kfree p)) st =
     (if p \<in> (\<lambda>(dev, l, n, dir). l) ` set (mapped_lists st) then None else Some st)"
| "dma_step c (Dma (E_map_sg dev l n dir r)) st =
     (if engine_on st \<or> l \<in> (\<lambda>(dev, l, n, dir). l) ` set (mapped_lists st) \<or> int (size (held_pages st)) < n then None
      else Some (if r = 0 then st else st\<lparr>mapped_lists := (dev, l, n, dir) # mapped_lists st\<rparr>))"
| "dma_step c (Dma (E_unmap_sg dev l n dir)) st =
     (if engine_on st \<or> (dev, l, n, dir) \<notin> set (mapped_lists st) then None
      else Some (st\<lparr>mapped_lists := remove1 (dev, l, n, dir) (mapped_lists st)\<rparr>))"
| "dma_step c (Dma (E_free_coherent dev sz virt bus)) st = (if engine_on st then None else Some st)"
| "dma_step c (Io (E_iowrite32 v a)) st =
     (if a \<noteq> c then Some st
      else if v AND XDMA_CTRL_RUN_STOP = 0 then Some (st\<lparr>engine_on := False\<rparr>)
      else if mapped_lists st = [] then None else Some (st\<lparr>engine_on := True\<rparr>))"
| "dma_step c e st = Some st"

fun dma_run :: "u64 \<Rightarrow> event list \<Rightarrow> dma_state \<Rightarrow> dma_state option" where
  "dma_run c [] st = Some st"
| "dma_run c (e # es) st = (case dma_step c e st of None \<Rightarrow> None | Some st' \<Rightarrow> dma_run c es st')"

lemma dma_run_append:
  "dma_run c (xs @ ys) st = (case dma_run c xs st of None \<Rightarrow> None | Some st' \<Rightarrow> dma_run c ys st')"
  by (induction xs arbitrary: st) (auto split: option.splits)

section \<open>The phases of a write\<close>

lemma dma_heap:
  assumes "list_all heap_event hs" and "mapped_lists st = []"
  shows "dma_run c hs st = Some st"
  using assms(1)
proof (induction hs)
  case (Cons e hs)
  then show ?case using assms(2) by (cases e rule: heap_event.cases) auto
qed simp

lemma dma_flush: "dma_run c (map (\<lambda>pg. Mem (E_flush_dcache_page pg)) pgs) st = Some st"
  by (induction pgs) simp_all

lemma dma_map:
  assumes "n \<noteq> 0" and "mapped_lists st = []" and "\<not> engine_on st"
  shows "dma_run c (map_events dev buf l pgs n) st = Some (st\<lparr>held_pages := held_pages st + mset pgs,
    mapped_lists := [(dev, l, int (length pgs), DMA_TO_DEVICE)]\<rparr>)"
  using assms by (simp add: map_events_def pin_events_def dma_run_append dma_flush)

lemma start_runs: "(0xF83E1B :: u32) AND XDMA_CTRL_RUN_STOP \<noteq> 0"
  by (simp add: XDMA_CTRL_RUN_STOP_def)

lemma dma_transfer:
  assumes "blocks_at h s" and "mapped_lists st \<noteq> []" and "\<not> engine_on st"
  shows "dma_run (h + 0x04) (transfer_events K h s bus adj v0 v1 v2 v3) st = Some st"
  using assms block_addresses [OF assms(1)] start_runs
  by (simp add: transfer_events_def engine_events_def eq_commute [of "h + 4"])

lemma dma_put:
  assumes "held_pages st = mset pgs" and "mapped_lists st = []" and "\<not> engine_on st"
  shows "dma_run c (put_events False pgs) st = Some (st\<lparr>held_pages := {#}\<rparr>)"
  using assms unfolding put_events_def
  by (induction pgs arbitrary: st) simp_all

lemma dma_release:
  assumes "held_pages st = mset pgs" and "mapped_lists st = [(dev, sgl s, int (length pgs), DMA_TO_DEVICE)]"
    and "\<not> engine_on st"
  shows "dma_run c (release_events dev m s pgs) st = Some dma_idle"
  using assms dma_put [of "st\<lparr>mapped_lists := []\<rparr>" pgs c]
  by (simp add: release_events_def dma_run_append dma_idle_def)

section \<open>A write as a whole\<close>

text \<open>From the release of the pages back to their pinning, nothing the device may still use is given away.\<close>

lemma write_dma_run:
  assumes "list_all heap_event hs" and "n \<noteq> 0" and "blocks_at (engine_regs_h2c w) (engine_sgdma_regs w)"
  shows "dma_run (engine_regs_h2c w + 0x04) (write_events K w buf hs m s pgs n virt bus j vs) dma_idle = Some dma_idle"
  using assms(2)
  by (simp add: write_events_def dma_run_append dma_heap [OF assms(1)] dma_map dma_transfer [OF assms(3)]
      dma_release dma_idle_def)

fun is_start :: "u64 \<Rightarrow> event \<Rightarrow> bool" where
  "is_start c (Io (E_iowrite32 v a)) = (a = c \<and> v AND XDMA_CTRL_RUN_STOP \<noteq> 0)"
| "is_start c e = False"

definition starts :: "u64 \<Rightarrow> event list \<Rightarrow> nat" where
  "starts c es = length (filter (is_start c) es)"

lemma h2c_done_order:
  assumes d: "h2c_done K M w buf cnt ppos rc w'" and b: "blocks_at (engine_regs_h2c w) (engine_sgdma_regs w)"
  shows "\<exists>es. trace w' = trace w @ es \<and> dma_run (engine_regs_h2c w + 0x04) es dma_idle = Some dma_idle
    \<and> starts (engine_regs_h2c w + 0x04) es = 1"
proof -
  from d obtain hs m s pgs n virt bus j ds vs where h: "list_all heap_event hs" "length ds = n" "j < length ds"
    and w': "w' = put_descs (logged w (write_events K w buf hs m s pgs n virt bus j vs)) virt ds"
    unfolding h2c_done_def ready_def by blast
  have hs: "filter (is_start c) hs = []" for c
    using h(1) heap_event_mem by (fastforce simp: filter_empty_conv list_all_iff)
  have "starts (engine_regs_h2c w + 0x04) (write_events K w buf hs m s pgs n virt bus j vs) = 1"
    using block_addresses [OF b] start_runs hs
    by (simp add: starts_def write_events_def map_events_def pin_events_def release_events_def put_events_def
        transfer_events_def engine_events_def eq_commute [of "engine_regs_h2c w + 4"] filter_empty_conv)
  then show ?thesis
    using write_dma_run [OF h(1) _ b, of n] h(2,3) w' by (intro exI conjI) auto
qed

end
