(* ===== verification/LogMacros.thy ===== *)
theory LogMacros
  imports LogUtils
begin

text \<open>
  The macros of \<^verbatim>\<open>app/LogUtils.h\<close>: the escape sequences for colours, the texts shown in them, the
  timer, and the log statements of both branches: on the streams of the log4cpp library, which is a
  parameter, and on \<open>NewLine\<close> objects.
\<close>

section \<open>Colours\<close>

definition ESC :: char where
  "ESC = CHR 0x1B"

definition COLOR_NONE :: string where
  "COLOR_NONE = ESC # ''[0m''"

definition COLOR_BLACK :: string where
  "COLOR_BLACK = ESC # ''[0;30m''"

definition COLOR_L_BLACK :: string where
  "COLOR_L_BLACK = ESC # ''[1;30m''"

definition COLOR_RED :: string where
  "COLOR_RED = ESC # ''[0;31m''"

definition COLOR_L_RED :: string where
  "COLOR_L_RED = ESC # ''[1;31m''"

definition COLOR_GREEN :: string where
  "COLOR_GREEN = ESC # ''[0;32m''"

definition COLOR_L_GREEN :: string where
  "COLOR_L_GREEN = ESC # ''[1;32m''"

definition COLOR_BROWN :: string where
  "COLOR_BROWN = ESC # ''[0;33m''"

definition COLOR_YELLOW :: string where
  "COLOR_YELLOW = ESC # ''[1;33m''"

definition COLOR_BLUE :: string where
  "COLOR_BLUE = ESC # ''[0;34m''"

definition COLOR_L_BLUE :: string where
  "COLOR_L_BLUE = ESC # ''[1;34m''"

definition COLOR_PURPLE :: string where
  "COLOR_PURPLE = ESC # ''[0;35m''"

definition COLOR_L_PURPLE :: string where
  "COLOR_L_PURPLE = ESC # ''[1;35m''"

definition COLOR_CYAN :: string where
  "COLOR_CYAN = ESC # ''[0;36m''"

definition COLOR_L_CYAN :: string where
  "COLOR_L_CYAN = ESC # ''[1;36m''"

definition COLOR_GRAY :: string where
  "COLOR_GRAY = ESC # ''[0;37m''"

definition COLOR_WHITE :: string where
  "COLOR_WHITE = ESC # ''[1;37m''"

definition CONSOLE_BOLD :: string where
  "CONSOLE_BOLD = ESC # ''[1m''"

definition CONSOLE_UNDERLINE :: string where
  "CONSOLE_UNDERLINE = ESC # ''[4m''"

definition CONSOLE_BLINK :: string where
  "CONSOLE_BLINK = ESC # ''[5m''"

definition CONSOLE_REVERSE :: string where
  "CONSOLE_REVERSE = ESC # ''[7m''"

definition CONSOLE_HIDE :: string where
  "CONSOLE_HIDE = ESC # ''[8m''"

definition CONSOLE_CLEAR :: string where
  "CONSOLE_CLEAR = ESC # ''[2J''"

definition CONSOLE_CLRLINE :: string where
  "CONSOLE_CLRLINE = CHR 0x0D # ESC # ''[K''"

definition CONSOLE_NORMAL :: string where
  "CONSOLE_NORMAL = ESC # ''[25m''"

definition SHOWRED :: "string \<Rightarrow> string" where
  "SHOWRED str = COLOR_L_RED @ str @ COLOR_NONE"

definition SHOWGREEN :: "string \<Rightarrow> string" where
  "SHOWGREEN str = COLOR_L_GREEN @ str @ COLOR_NONE"

definition SHOWYELLOW :: "string \<Rightarrow> string" where
  "SHOWYELLOW str = COLOR_YELLOW @ str @ COLOR_NONE"

definition SHOWBLINK :: "string \<Rightarrow> string" where
  "SHOWBLINK str = CONSOLE_BLINK @ str @ CONSOLE_NORMAL"

text \<open>What a terminal shows of a text: an escape sequence, which ends with a letter, is not shown.\<close>

definition ends_sequence :: "char \<Rightarrow> bool" where
  "ends_sequence c \<longleftrightarrow> c \<in> {CHR ''m'', CHR ''J'', CHR ''K''}"

fun visible :: "string \<Rightarrow> bool \<Rightarrow> string" where
  "visible [] esc = []"
| "visible (c # cs) True = visible cs (\<not> ends_sequence c)"
| "visible (c # cs) False = (if c = ESC then visible cs True else c # visible cs False)"

lemma visible_append: "ESC \<notin> set xs \<Longrightarrow> visible (xs @ ys) False = xs @ visible ys False"
  by (induction xs) auto

lemmas sequence_defs = COLOR_NONE_def COLOR_L_RED_def COLOR_L_GREEN_def COLOR_YELLOW_def CONSOLE_BLINK_def CONSOLE_NORMAL_def

lemma visible_sequence:
  "visible (COLOR_NONE @ ys) False = visible ys False" "visible (COLOR_L_RED @ ys) False = visible ys False"
  "visible (COLOR_L_GREEN @ ys) False = visible ys False" "visible (COLOR_YELLOW @ ys) False = visible ys False"
  "visible (CONSOLE_BLINK @ ys) False = visible ys False" "visible (CONSOLE_NORMAL @ ys) False = visible ys False"
  by (simp_all add: sequence_defs ends_sequence_def)

lemmas visible_sequence_only = visible_sequence [where ys = "[]", simplified]

text \<open>A coloured text reads as the text.\<close>

lemma visible_shown:
  assumes "ESC \<notin> set str"
  shows "visible (SHOWRED str) False = str" "visible (SHOWGREEN str) False = str"
    "visible (SHOWYELLOW str) False = str" "visible (SHOWBLINK str) False = str"
  using assms
  by (simp_all add: SHOWRED_def SHOWGREEN_def SHOWYELLOW_def SHOWBLINK_def visible_sequence visible_append visible_sequence_only)

section \<open>The timer\<close>

text \<open>The seconds and microseconds of \<open>gettimeofday\<close>, and the difference in microseconds as a \<open>long\<close>.\<close>

record timeval =
  tv_sec :: u64
  tv_usec :: u64

definition timer_diff :: "timeval \<Rightarrow> timeval \<Rightarrow> u64" where
  "timer_diff tv1 tv2 = (tv_sec tv2 * 1000000 + tv_usec tv2) - (tv_sec tv1 * 1000000 + tv_usec tv1)"

text \<open>The microseconds from one time to a later one, also across the end of a second.\<close>

lemma timer_diff_elapsed:
  assumes "t1 \<le> t2"
  shows "timer_diff \<lparr>tv_sec = of_nat (t1 div 1000000), tv_usec = of_nat (t1 mod 1000000)\<rparr>
      \<lparr>tv_sec = of_nat (t2 div 1000000), tv_usec = of_nat (t2 mod 1000000)\<rparr> = of_nat (t2 - t1)"
proof -
  have "of_nat (t div 1000000) * 1000000 + of_nat (t mod 1000000) = (of_nat t :: u64)" for t
    by (metis div_mult_mod_eq of_nat_add of_nat_mult of_nat_numeral)
  then show ?thesis using assms by (simp add: timer_diff_def of_nat_diff)
qed

section \<open>Log statements\<close>

text \<open>A variable with its name, as the pieces the stream operators get; \<open>val\<close> is the text of the value.\<close>

definition VNAME :: "string \<Rightarrow> string \<Rightarrow> string list" where
  "VNAME name val = [name @ ''='', val, '' '']"

text \<open>
  What the statements use of log4cpp: the stream that a category gives for a priority, inserting
  into it, and its destructor, which hands the message on. The macros are the first of these; a
  statement inserts further texts \<open>us\<close> and ends with the stream.
\<close>

datatype priority = DEBUG | INFO | ERROR

record 'g log4cpp =
  category_stream :: "priority \<Rightarrow> 'g \<Rightarrow> u64 \<times> 'g"
  stream_insert :: "u64 \<Rightarrow> string \<Rightarrow> 'g \<Rightarrow> 'g"
  stream_end :: "u64 \<Rightarrow> 'g \<Rightarrow> 'g"

definition category_statement :: "'g log4cpp \<Rightarrow> priority \<Rightarrow> string list \<Rightarrow> 'g \<Rightarrow> 'g" where
  "category_statement L p us g = (let (s, g) = category_stream L p g in stream_end L s (fold (stream_insert L s) us g))"

definition category_logDebug :: "'g log4cpp \<Rightarrow> string list \<Rightarrow> 'g \<Rightarrow> 'g" where
  "category_logDebug L us = category_statement L DEBUG us"

definition category_logInfo :: "'g log4cpp \<Rightarrow> string list \<Rightarrow> 'g \<Rightarrow> 'g" where
  "category_logInfo L us = category_statement L INFO us"

definition category_logError :: "'g log4cpp \<Rightarrow> string list \<Rightarrow> 'g \<Rightarrow> 'g" where
  "category_logError L us = category_statement L ERROR (SHOWRED ''ERROR '' # us)"

text \<open>
  The documented behaviour: a stream collects what is inserted and hands it to its category, with
  the priority, when it ends. \<open>held\<close> tells what a stream holds, \<open>messages\<close> what the category got.
\<close>

definition streams_ok :: "'g log4cpp \<Rightarrow> ('g \<Rightarrow> u64 \<Rightarrow> (priority \<times> string) option) \<Rightarrow> ('g \<Rightarrow> (priority \<times> string) list) \<Rightarrow> bool" where
  "streams_ok L held messages \<longleftrightarrow>
     (\<forall>p g s g'. category_stream L p g = (s, g') \<longrightarrow> held g' s = Some (p, []) \<and> messages g' = messages g)
     \<and> (\<forall>p m g s t. held g s = Some (p, m) \<longrightarrow>
          held (stream_insert L s t g) s = Some (p, m @ t) \<and> messages (stream_insert L s t g) = messages g)
     \<and> (\<forall>p m g s. held g s = Some (p, m) \<longrightarrow> messages (stream_end L s g) = messages g @ [(p, m)])"

lemma inserted_texts:
  assumes "streams_ok L held messages" and "held g s = Some (p, m)"
  shows "held (fold (stream_insert L s) us g) s = Some (p, m @ concat us)
    \<and> messages (fold (stream_insert L s) us g) = messages g"
  using assms(2)
proof (induction us arbitrary: g m)
  case (Cons u us)
  then have "held (stream_insert L s u g) s = Some (p, m @ u)" "messages (stream_insert L s u g) = messages g"
    using assms(1) by (simp_all add: streams_ok_def)
  then show ?case using Cons.IH [of "stream_insert L s u g" "m @ u"] by simp
qed simp

lemma category_message:
  assumes "streams_ok L held messages"
  shows "messages (category_statement L p us g) = messages g @ [(p, concat us)]"
proof -
  obtain s g1 where c: "category_stream L p g = (s, g1)" by (cases "category_stream L p g")
  then have h: "held g1 s = Some (p, [])" "messages g1 = messages g"
    using assms by (simp_all add: streams_ok_def)
  show ?thesis using inserted_texts [OF assms h(1), of us] assms c h(2)
    by (simp add: category_statement_def streams_ok_def)
qed

text \<open>Each statement is one message of its priority; an error reads as one on the terminal.\<close>

lemma category_levels:
  assumes "streams_ok L held messages"
  shows "messages (category_logDebug L us g) = messages g @ [(DEBUG, concat us)]"
    and "messages (category_logInfo L us g) = messages g @ [(INFO, concat us)]"
    and "messages (category_logError L us g) = messages g @ [(ERROR, SHOWRED ''ERROR '' @ concat us)]"
  by (simp_all add: category_logDebug_def category_logInfo_def category_logError_def category_message [OF assms])

text \<open>The other branch writes to \<open>NewLine\<close> objects.\<close>

definition logDebug :: "(log_state \<Rightarrow> u64) \<Rightarrow> string \<Rightarrow> string list \<Rightarrow> (log_state, u64) prog" where
  "logDebug new t us = log_statement new t us"

definition logInfo :: "(log_state \<Rightarrow> u64) \<Rightarrow> string list \<Rightarrow> (log_state, u64) prog" where
  "logInfo new us = log_statement new (SHOWYELLOW (''INFO'' @ [CHR 0x09, CHR '' ''])) us"

definition logError :: "(log_state \<Rightarrow> u64) \<Rightarrow> string list \<Rightarrow> (log_state, u64) prog" where
  "logError new us = log_statement new (SHOWRED (''ERROR'' @ [CHR 0x09, CHR '' ''])) us"

text \<open>A statement adds one line, which starts with the level, and frees its buffer.\<close>

lemma log_levels:
  assumes "new g \<noteq> 0" and "string_buffers g (new g) = None"
  shows "runs (logInfo new us) g (\<lambda>_ g'. string_buffers g' = string_buffers g
      \<and> log_text g' = log_text g @ SHOWYELLOW (''INFO'' @ [CHR 0x09, CHR '' '']) @ concat us @ [newline])"
    and "runs (logError new us) g (\<lambda>_ g'. string_buffers g' = string_buffers g
      \<and> log_text g' = log_text g @ SHOWRED (''ERROR'' @ [CHR 0x09, CHR '' '']) @ concat us @ [newline])"
  unfolding logInfo_def logError_def
  by (rule runs_weaken [OF log_statement_runs [of new g, OF assms]]; simp)+

end
