(* ===== verification/XdmaLayout.thy ===== *)
theory XdmaLayout
  imports Xpcie_H
begin

text \<open>
  The rest of \<^verbatim>\<open>driver/xpcie.h\<close>: the constants and register blocks of the XDMA core that the
  driver declares and its code does not use yet. The register blocks lie apart in the base address
  register, so an access to a register of one block never reaches another.
\<close>

section \<open>Constants\<close>

definition XDMA_OFS_INT_CTRL :: u64 where
  "XDMA_OFS_INT_CTRL = 0x2000"

definition XDMA_OFS_CONFIG :: u64 where
  "XDMA_OFS_CONFIG = 0x3000"

definition XDMA_CHANNEL_NUM_MAX :: int where
  "XDMA_CHANNEL_NUM_MAX = 4"

definition XDMA_TRANSFER_MAX_BYTES :: int where
  "XDMA_TRANSFER_MAX_BYTES = 2048 * 4096"

definition XDMA_CTRL_IE_DESC_COMPLETED :: u32 where
  "XDMA_CTRL_IE_DESC_COMPLETED = push_bit 2 1"

definition XDMA_CTRL_IE_IDLE_STOPPED :: u32 where
  "XDMA_CTRL_IE_IDLE_STOPPED = push_bit 6 1"

definition XDMA_CTRL_NON_INCR_ADDR :: u32 where
  "XDMA_CTRL_NON_INCR_ADDR = push_bit 25 1"

definition XDMA_CTRL_POLL_MODE_WB :: u32 where
  "XDMA_CTRL_POLL_MODE_WB = push_bit 26 1"

definition XDMA_STAT_BUSY :: u32 where
  "XDMA_STAT_BUSY = push_bit 0 1"

definition XDMA_STAT_DESC_STOPPED :: u32 where
  "XDMA_STAT_DESC_STOPPED = push_bit 1 1"

definition XDMA_STAT_DESC_COMPLETED :: u32 where
  "XDMA_STAT_DESC_COMPLETED = push_bit 2 1"

definition XDMA_STAT_ALIGN_MISMATCH :: u32 where
  "XDMA_STAT_ALIGN_MISMATCH = push_bit 3 1"

definition XDMA_STAT_MAGIC_STOPPED :: u32 where
  "XDMA_STAT_MAGIC_STOPPED = push_bit 4 1"

definition XDMA_STAT_FETCH_STOPPED :: u32 where
  "XDMA_STAT_FETCH_STOPPED = push_bit 5 1"

definition XDMA_STAT_IDLE_STOPPED :: u32 where
  "XDMA_STAT_IDLE_STOPPED = push_bit 6 1"

definition XDMA_STAT_READ_ERROR :: u32 where
  "XDMA_STAT_READ_ERROR = push_bit 9 0x1F"

definition XDMA_STAT_DESC_ERROR :: u32 where
  "XDMA_STAT_DESC_ERROR = push_bit 19 0x1F"

definition MAGIC_ENGINE :: u64 where
  "MAGIC_ENGINE = 0xEEEEEEEE"

definition MAGIC_DEVICE :: u64 where
  "MAGIC_DEVICE = 0xDDDDDDDD"

definition MAGIC_CHAR :: u64 where
  "MAGIC_CHAR = 0xCCCCCCCC"

definition MAGIC_BITSTREAM :: u64 where
  "MAGIC_BITSTREAM = 0xBBBBBBBB"

definition XDMA_ID_H2C :: u32 where
  "XDMA_ID_H2C = 0x1fc0"

definition XDMA_ID_C2H :: u32 where
  "XDMA_ID_C2H = 0x1fc1"

definition MAX_NUM_ENGINES :: int where
  "MAX_NUM_ENGINES = XDMA_CHANNEL_NUM_MAX * 2"

definition H2C_CHANNEL_OFFSET :: u64 where
  "H2C_CHANNEL_OFFSET = 0x1000"

definition SGDMA_OFFSET_FROM_CHANNEL :: u64 where
  "SGDMA_OFFSET_FROM_CHANNEL = 0x4000"

definition CHANNEL_SPACING :: u64 where
  "CHANNEL_SPACING = 0x100"

section \<open>Register blocks\<close>

definition config_regs_struct :: layout where
  "config_regs_struct =
    [(''identifier'', 1), (''reserved_1'', 4), (''msi_enable'', 1)]"

definition msix_vec_table_entry_struct :: layout where
  "msix_vec_table_entry_struct =
    [(''msi_vec_addr_lo'', 1), (''msi_vec_addr_hi'', 1), (''msi_vec_data_lo'', 1),
     (''msi_vec_data_hi'', 1)]"

text \<open>A table is its entries one after the other.\<close>

definition msix_vec_table_size :: nat where
  "msix_vec_table_size = 32 * struct_size msix_vec_table_entry_struct"

definition performance_regs_struct :: layout where
  "performance_regs_struct =
    [(''identifier'', 1), (''control'', 1), (''status'', 1), (''period_low'', 1),
     (''period_high'', 1), (''performance_low'', 1), (''performance_high'', 1),
     (''wait_low'', 1), (''wait_high'', 1)]"

definition interrupt_regs_struct :: layout where
  "interrupt_regs_struct =
    [(''identifier'', 1), (''user_int_enable'', 1), (''user_int_enable_w1s'', 1),
     (''user_int_enable_w1c'', 1), (''channel_int_enable'', 1),
     (''channel_int_enable_w1s'', 1), (''channel_int_enable_w1c'', 1), (''reserved_1'', 9),
     (''user_int_request'', 1), (''channel_int_request'', 1), (''user_int_pending'', 1),
     (''channel_int_pending'', 1), (''reserved_2'', 12), (''user_msi_vector'', 8),
     (''channel_msi_vector'', 8)]"

definition xdma_result_struct :: layout where
  "xdma_result_struct =
    [(''status'', 1), (''length'', 1), (''reserved_1'', 6)]"

definition xdma_poll_wb_struct :: layout where
  "xdma_poll_wb_struct =
    [(''completed_desc_count'', 1), (''reserved_1'', 7)]"

section \<open>The register map\<close>

text \<open>
  The blocks with their targets: a block lies at a multiple of \<open>TARGET_SPACING\<close>. The driver uses the
  targets 0, 1, 4 and 6; 2 and 3 are at the offsets the header names.
\<close>

definition register_map :: "(nat \<times> layout) list" where
  "register_map = [(0, engine_regs_struct), (1, engine_regs_struct), (2, interrupt_regs_struct), (3, config_regs_struct),
     (4, engine_sgdma_regs_struct), (6, sgdma_common_regs_struct)]"

lemmas layout_defs = engine_regs_struct_def interrupt_regs_struct_def config_regs_struct_def engine_sgdma_regs_struct_def
  sgdma_common_regs_struct_def

lemma map_targets: "XDMA_OFS_INT_CTRL = 2 * TARGET_SPACING" "XDMA_OFS_CONFIG = 3 * TARGET_SPACING"
  "H2C_CHANNEL_OFFSET = TARGET_SPACING" "SGDMA_OFFSET_FROM_CHANNEL = 4 * TARGET_SPACING"
  by (simp_all add: XDMA_OFS_INT_CTRL_def XDMA_OFS_CONFIG_def H2C_CHANNEL_OFFSET_def SGDMA_OFFSET_FROM_CHANNEL_def TARGET_SPACING_def)

lemma map_fits: "(t, fs) \<in> set register_map \<Longrightarrow> struct_size fs \<le> unat CHANNEL_SPACING \<and> (\<forall>(g, n) \<in> set fs. 0 < n)"
  by (auto simp: register_map_def layout_defs struct_size_def CHANNEL_SPACING_def)

text \<open>A register of one block is not a register of another.\<close>

lemma registers_apart:
  assumes "(t, fs) \<in> set register_map" and "(t', fs') \<in> set register_map" and "t \<noteq> t'"
    and "field_offset fs f = Some k" and "field_offset fs' f' = Some k'"
  shows "4096 * t + k + 4 \<le> 4096 * t' \<or> 4096 * t' + k' + 4 \<le> 4096 * t"
proof -
  have "k + 4 \<le> 256" "k' + 4 \<le> 256"
    using field_offset_bound [OF assms(4)] field_offset_bound [OF assms(5)] map_fits [OF assms(1)] map_fits [OF assms(2)]
    by (auto simp: CHANNEL_SPACING_def)
  then show ?thesis using assms(3) by arith
qed

text \<open>The bits of the status register do not overlap.\<close>

definition status_bits :: "u32 list" where
  "status_bits = [XDMA_STAT_BUSY, XDMA_STAT_DESC_STOPPED, XDMA_STAT_DESC_COMPLETED, XDMA_STAT_ALIGN_MISMATCH,
     XDMA_STAT_MAGIC_STOPPED, XDMA_STAT_FETCH_STOPPED, XDMA_STAT_IDLE_STOPPED, XDMA_STAT_READ_ERROR, XDMA_STAT_DESC_ERROR]"

lemmas status_defs = status_bits_def XDMA_STAT_BUSY_def XDMA_STAT_DESC_STOPPED_def XDMA_STAT_DESC_COMPLETED_def
  XDMA_STAT_ALIGN_MISMATCH_def XDMA_STAT_MAGIC_STOPPED_def XDMA_STAT_FETCH_STOPPED_def XDMA_STAT_IDLE_STOPPED_def
  XDMA_STAT_READ_ERROR_def XDMA_STAT_DESC_ERROR_def

lemma status_bits_disjoint: "i < j \<Longrightarrow> j < length status_bits \<Longrightarrow> status_bits ! i AND status_bits ! j = 0"
proof -
  have "\<forall>j < length status_bits. \<forall>i < j. status_bits ! i AND status_bits ! j = 0"
    unfolding status_defs by (simp add: All_less_Suc numeral_nat)
  then show "i < j \<Longrightarrow> j < length status_bits \<Longrightarrow> status_bits ! i AND status_bits ! j = 0" by blast
qed

end
