(* ===== verification/Refinement.thy ===== *)
theory Refinement
  imports Lifecycle
begin

text \<open>
  What the life of the module promises, without its code: a ledger of what the driver holds
  (registrations with the kernel, mappings of the device's registers, pinned user pages) and the
  steps that may change it. The concrete steps of Lifecycle refine it.
\<close>

section \<open>The abstract driver\<close>

record ledger =
  held_regs :: "registration multiset"
  held_maps :: "u64 multiset"
  held_pins :: "u64 multiset"

text \<open>
  Loading acquires registrations, unloading gives some of those held back; a load that fails may
  have acquired some. Binding maps at most two registers, unbinding unmaps all. System calls leave
  the ledger as it is.
\<close>

inductive ledger_step :: "life \<times> ledger \<Rightarrow> life \<times> ledger \<Rightarrow> bool" where
  load: "ledger_step (Unloaded, a) (Loaded, a\<lparr>held_regs := held_regs a + R\<rparr>)" if "size R = 8"
| load_fails: "ledger_step (Unloaded, a) (Unloaded, a\<lparr>held_regs := held_regs a + R\<rparr>)"
| unload: "ledger_step (Loaded, a) (Unloaded, a\<lparr>held_regs := held_regs a - R\<rparr>)"
    if "R \<subseteq># held_regs a" and "size R = 8"
| bind: "ledger_step (Loaded, a) (Bound d, a\<lparr>held_maps := M\<rparr>)" if "held_maps a = {#}" and "size M \<le> 2"
| bind_fails: "ledger_step (Loaded, a) (Loaded, a)" if "held_maps a = {#}"
| unbind: "ledger_step (Bound d, a) (Loaded, a\<lparr>held_maps := {#}\<rparr>)"
| system_call: "ledger_step (l, a) (l, a)" if "l \<noteq> Unloaded"

text \<open>The ledger a trace leaves.\<close>

definition ledger_of :: "event list \<Rightarrow> ledger" where
  "ledger_of es = \<lparr>held_regs = mset (acquired es) - mset (released es),
     held_maps = mset (iomaps es) - mset (iounmaps es), held_pins = mset (pins es) - mset (unpins es)\<rparr>"

definition abs_state :: "life \<times> world \<Rightarrow> life \<times> ledger" where
  "abs_state = (\<lambda>(l, w). (l, ledger_of (trace w)))"

lemma abs_state_simp [simp]: "abs_state (l, w) = (l, ledger_of (trace w))"
  by (simp add: abs_state_def)

section \<open>What the invariant says of the ledger\<close>

definition bound_maps :: "world \<Rightarrow> u64 multiset" where
  "bound_maps w = mset (filter (\<lambda>p. p \<noteq> 0) (bar w))"

lemma ledger_inv:
  assumes "life_inv (l, w)"
  shows "ledger_of (trace w) = \<lparr>held_regs = mset (acquired (trace w)) - mset (released (trace w)),
    held_maps = bound_maps w, held_pins = {#}\<rparr>"
    and "mset (released (trace w)) \<subseteq># mset (acquired (trace w))"
    and "size (bound_maps w) \<le> 2" and "(\<forall>d. l \<noteq> Bound d) \<Longrightarrow> bound_maps w = {#}"
proof -
  have "size (bound_maps w) \<le> length (bar w)"
    by (simp only: bound_maps_def size_mset length_filter_le)
  then show "size (bound_maps w) \<le> 2"
    using assms by (simp add: life_inv_def bars_balanced_def)
qed (use assms in \<open>auto simp: life_inv_def ledger_of_def bars_balanced_def bound_maps_def
      intro: subset_mset.order_trans [OF mset_subset_eq_add_left]\<close>)

text \<open>Steps that register nothing keep the registrations.\<close>

lemma ledger_keep:
  assumes "life_inv (l, w)" and "life_inv (l', w')" and "trace w' = trace w @ es"
    and "acquired es = [] \<and> released es = []"
  shows "ledger_of (trace w') = (ledger_of (trace w))\<lparr>held_maps := bound_maps w'\<rparr>"
  using assms(3,4) unfolding ledger_inv(1) [OF assms(1)] ledger_inv(1) [OF assms(2)] by simp

lemma pci_only_ledger:
  assumes "life_inv (l, w)" and "life_inv (l', w')" and "pci_only w w'"
  shows "ledger_of (trace w') = (ledger_of (trace w))\<lparr>held_maps := bound_maps w'\<rparr>"
proof -
  obtain es where es: "trace w' = trace w @ es" "\<forall>e \<in> set es. \<exists>x. e = Pci x"
    using assms(3) by (auto simp: pci_only_def)
  then have "acquired es = [] \<and> released es = []" by (intro no_reg; fastforce)
  then show ?thesis by (rule ledger_keep [OF assms(1,2) es(1)])
qed

lemma ledger_maps_same:
  assumes "life_inv (l, w)" and "bar w' = bar w"
  shows "(ledger_of (trace w))\<lparr>held_maps := bound_maps w'\<rparr> = ledger_of (trace w)"
  using assms(2) unfolding ledger_inv(1) [OF assms(1)] by (simp add: bound_maps_def)

lemma mmap_ledger:
  assumes "mmap_bar K b vma w = Inr (r, w')" and "life_inv (l, w)" and "life_inv (l, w')"
  shows "ledger_of (trace w') = ledger_of (trace w)"
proof -
  obtain es where es: "w' = logged w es" "\<forall>e \<in> set es. \<exists>a p n r. e = Pci (E_remap_pfn a p n r)"
    using runsD [OF mmap_bar_trace assms(1)] by blast
  then have "pci_only w w'" by (auto intro!: pci_only_basic(1))
  then show ?thesis
    using pci_only_ledger [OF assms(2,3)] ledger_maps_same [OF assms(2), of w'] es(1) by simp
qed

lemma write_ledger:
  assumes K: "kernel_ok K M" and buf: "user_buffer buf cnt"
    and run: "xpcie_h2c_write K buf cnt ppos w = Inr (rc, w')" and inv: "life_inv (l, w)" "life_inv (l, w')"
  shows "ledger_of (trace w') = ledger_of (trace w)"
proof -
  have "h2c_done K M w buf cnt ppos rc w'"
    using h2c_write_result [of K M cnt buf w ppos] K buf inv(1) run
    by (simp add: kernel_ok_def user_buffer_def life_inv_def h2c_result_def)
  then obtain hs m s pgs n virt bus j ds vs where h: "list_all heap_event hs"
    and w': "w' = put_descs (logged w (write_events K w buf hs m s pgs n virt bus j vs)) virt ds"
    unfolding h2c_done_def by blast
  show ?thesis
    using ledger_keep [OF inv, of "write_events K w buf hs m s pgs n virt bus j vs"]
      write_events_accounts [OF h] ledger_maps_same [OF inv(1), of w'] w' by simp
qed

section \<open>Every step refines an abstract step\<close>

lemma registered_size: "size (mset (registered w)) = 8"
  by (simp add: registered_def)

lemma load_ledger:
  assumes "xpcie_init K w = Inr (rc, w')" and "life_inv (Unloaded, w)"
  shows "\<exists>R. ledger_of (trace w') = (ledger_of (trace w))\<lparr>held_regs := held_regs (ledger_of (trace w)) + R\<rparr>
    \<and> (rc = 0 \<longrightarrow> size R = 8)"
proof -
  obtain es where o: "same_hw w w'" "trace w' = trace w @ es" "\<forall>e \<in> set es. \<exists>r. e = Reg r" "released es = []"
     "rc = 0 \<longrightarrow> acquired es = registered w'"
    using runsD [OF xpcie_init_runs assms(1)] by (auto simp: init_outcome_def)
  have "iomaps es = [] \<and> iounmaps es = []" "pins es = [] \<and> unpins es = []"
    using o(3) by (intro no_pci no_mem; fastforce)+
  then show ?thesis
    using o registered_size [of w'] subset_mset.add_diff_assoc2 [OF ledger_inv(2) [OF assms(2)]]
    by (intro exI [of _ "mset (acquired es)"]) (auto simp: ledger_of_def)
qed

lemma unload_ledger:
  assumes "xpcie_exit w = Inr ((), w')" and inv: "life_inv (Loaded, w)"
  shows "\<exists>R. ledger_of (trace w') = (ledger_of (trace w))\<lparr>held_regs := held_regs (ledger_of (trace w)) - R\<rparr>
    \<and> R \<subseteq># held_regs (ledger_of (trace w)) \<and> size R = 8"
proof -
  obtain es where o: "same_hw w w'" "trace w' = trace w @ es" "\<forall>e \<in> set es. \<exists>r. e = Reg r" "acquired es = []"
     "mset (released es) = mset (registered w)"
    using runsD [OF xpcie_exit_runs assms(1)] by auto
  have "iomaps es = [] \<and> iounmaps es = []" "pins es = [] \<and> unpins es = []"
    using o(3) by (intro no_pci no_mem; fastforce)+
  moreover have "mset (registered w) \<subseteq># mset (acquired (trace w)) - mset (released (trace w))"
  proof -
    have "mset (released (trace w)) + mset (registered w) \<subseteq># mset (acquired (trace w))"
      using inv by (simp add: life_inv_def)
    then obtain C where "mset (acquired (trace w)) = mset (released (trace w)) + mset (registered w) + C"
      by (auto simp: mset_subset_eq_exists_conv)
    then show ?thesis by (simp add: add.assoc)
  qed
  ultimately show ?thesis
    using o registered_size [of w]
    by (intro exI [of _ "mset (registered w)"]) (auto simp: ledger_of_def)
qed

lemma life_step_refines:
  assumes K: "kernel_ok K M" and step: "life_step K (l, w) (l', w')" and inv: "life_inv (l, w)"
  shows "ledger_step (abs_state (l, w)) (abs_state (l', w'))"
proof -
  note inv' = life_step_inv [OF K step inv]
  show ?thesis
    using step
  proof (cases rule: life_step.cases)
    case load
    then show ?thesis using load_ledger [of K w 0 w'] inv by (auto intro: ledger_step.load)
  next
    case (load_fails rc)
    then show ?thesis using load_ledger [of K w rc w'] inv by (auto intro: ledger_step.load_fails)
  next
    case unload
    then show ?thesis using unload_ledger [of w w'] inv by (auto intro: ledger_step.unload)
  next
    case (bind pdev)
    have b: "length (bar w) = 2" using inv by (auto simp: life_inv_def bars_balanced_def)
    have "pci_only w w'"
      using runsD [OF xpcie_probe_runs [OF b] bind(4)] bind(3) by (auto intro: probe_pci_only)
    then have e: "ledger_of (trace w') = (ledger_of (trace w))\<lparr>held_maps := bound_maps w'\<rparr>"
      by (rule pci_only_ledger [OF inv inv'])
    have "held_maps (ledger_of (trace w)) = {#}"
      using ledger_inv(4) [OF inv] bind(1) unfolding ledger_inv(1) [OF inv] by simp
    then show ?thesis unfolding bind(1,2) abs_state_simp e
      by (rule ledger_step.bind) (rule ledger_inv(3) [OF inv'])
  next
    case (bind_fails pdev rc)
    have b: "bars_balanced w" "bar w = [0, 0]" using inv bind_fails(1) by (auto simp: life_inv_def)
    have "pci_only w w'"
      using runsD [OF xpcie_probe_runs bind_fails(4)] b bind_fails(3) by (auto intro: probe_pci_only)
    then have e: "ledger_of (trace w') = (ledger_of (trace w))\<lparr>held_maps := bound_maps w'\<rparr>"
      by (rule pci_only_ledger [OF inv inv'])
    have "bar w' = bar w"
      using runsD [OF probe_balanced [OF b bind_fails(3)] bind_fails(4)] bind_fails(5) b by simp
    then have "ledger_of (trace w') = ledger_of (trace w)" using e ledger_maps_same [OF inv] by simp
    moreover have "held_maps (ledger_of (trace w)) = {#}"
      using ledger_inv(4) [OF inv] bind_fails(1) unfolding ledger_inv(1) [OF inv] by simp
    ultimately show ?thesis using bind_fails by (auto intro: ledger_step.bind_fails)
  next
    case (unbind pdev)
    have b: "length (bar w) = 2" using inv by (auto simp: life_inv_def bars_balanced_def)
    have "pci_only w w'" by (rule runsD [OF remove_pci_only [OF b] unbind(3)])
    then have e: "ledger_of (trace w') = (ledger_of (trace w))\<lparr>held_maps := bound_maps w'\<rparr>"
      by (rule pci_only_ledger [OF inv inv'])
    have "bound_maps w' = {#}" using ledger_inv(4) [OF inv'] unbind(2) by simp
    then show ?thesis using e unbind by (auto intro: ledger_step.unbind)
  next
    case (write_h2c buf cnt ppos rc)
    then show ?thesis
      using write_ledger [OF K write_h2c(3,4) inv] inv' by (auto intro: ledger_step.system_call)
  next
    case (mmap_user vma r)
    then show ?thesis
      using mmap_ledger [of K 0 vma w r w' l] inv inv'
      by (auto simp: xpcie_user_mmap_def intro: ledger_step.system_call)
  next
    case (mmap_h2c vma r)
    then show ?thesis
      using mmap_ledger [of K 1 vma w r w' l] inv inv'
      by (auto simp: xpcie_h2c_mmap_def intro: ledger_step.system_call)
  qed
qed

end
