(* ===== verification/Spec2Isabelle.thy ===== *)
theory Spec2Isabelle
  imports MapperProps DescriptorProps EngineProps DeviceProps ToolProps AppProps FileProps DmaOrder LogMacros XdmaLayout Refinement
begin

text \<open>
  Verification library of xpcie, a Linux driver for a PCI Express card with Xilinx's XDMA engine,
  and of the programs that come with it. User space writes to a character device; the driver pins
  the pages of the buffer, maps them for DMA, describes the mapping by a linked list of descriptors
  in coherent memory, programs the engine and waits. The registers of the card can also be mapped
  into user space, where a small tool reads and writes them.

  The theories, with the part of \<^verbatim>\<open>src/\<close> each models:

  \<^item> Prelude: machine integers, program steps (state in, crash or value and state out), total
    correctness \<open>runs\<close>, arrays with checked bounds, index loops.
  \<^item> \<open>Xpcie_H\<close>: constants, register blocks and structures of \<^verbatim>\<open>driver/xpcie.h\<close>.
  \<^item> Kernel: the state of the driver (its static variables, its heap objects and the trace of its
    calls) and the kernel interface as a parameter; documented kernel behaviour as predicates.
  \<^item> SgMapper: \<open>sg_create_mapper\<close>, \<open>sg_destroy_mapper\<close>, \<open>sgm_get_user_pages\<close>,
    \<open>sgm_put_user_pages\<close>, \<open>sgm_dirty_pages\<close>, \<open>sgm_kernel_pages\<close> of \<^verbatim>\<open>driver/xpcie.c\<close>.
  \<^item> Descriptor: \<open>xdma_desc_alloc\<close>, \<open>_free\<close>, \<open>_set\<close>, \<open>_link\<close>, \<open>_control\<close>, \<open>_adjacent\<close>.
  \<^item> TransferBuild: \<open>transfer_build\<close>, \<open>transfer_terminate\<close>, the adjacency loop, \<open>transfer_dump\<close>.
  \<^item> Chain: the finished list as the device sees it: following it, and prefetching bursts of it.
  \<^item> Engine: register access, \<open>engine_start\<close>, \<open>engine_stop\<close>, \<open>transfer_start\<close>, \<open>test_h2c\<close>.
  \<^item> PciDevice: \<open>map_single_bar\<close>, \<open>unmap_bars\<close>, \<open>map_bars\<close>, \<open>set_dma_mask\<close>, \<open>xpcie_probe\<close>,
    \<open>xpcie_remove\<close>.
  \<^item> H2cWrite: \<open>xpcie_h2c_write\<close> in its three phases (map, build, release) and as a whole.
  \<^item> CharDev: the other file operations; \<open>xpcie_user_mmap\<close> and \<open>xpcie_h2c_mmap\<close> behind the
    locale \<open>window_mmap\<close>.
  \<^item> Lifecycle: \<open>xpcie_init\<close>, \<open>xpcie_exit\<close>, and the life of the module as a step relation.
  \<^item> FileOps: the tables of file operations, what a call on an open file runs (behind the locale
    \<open>quiet_device\<close>), and the module together with its device files as a step relation.
  \<^item> Loading: the table of supported cards, the driver structure, and loading with devices present:
    \<open>pci_register_driver\<close> calls \<open>xpcie_probe\<close> for each card that matches.
  \<^item> CardMemory: the memory of the card after a write, against the bytes of the user's buffer.
  \<^item> XdmaLayout: the register blocks and constants of \<^verbatim>\<open>driver/xpcie.h\<close> that no code uses yet.
  \<^item> Launch, Coalesce, Refinement: further specifications. Launch reads a trace of register writes as
    the device does and says which lists it runs, for transfers in sequence and for two at once;
    Coalesce is a reference definition of \<open>transfer_build\<close> on lists of blocks; Refinement is an abstract
    ledger of mappings, pins and registrations that the life of the module implements.
  \<^item> DmaOrder: what a driver owes a device that accesses memory, as an automaton over the trace: pages
    stay pinned and lists stay mapped as long as the engine may use them.
  \<^item> RegRw: the tool \<^verbatim>\<open>app/reg_rw.c\<close>, with a locale for its three access widths.
    RegText: the lines it prints as text, and the value of a read parsed back from them.
  \<^item> Locks: \<^verbatim>\<open>app/Lock.h\<close> and \<^verbatim>\<open>app/Lock.cpp\<close>; the operations of \<open>LockedValue\<close> as steps of concurrent
    threads on the read-write lock (behind the locale \<open>rw_lock\<close>), the mutex (behind \<open>i_lock\<close>); \<open>exclusive_lock\<close> is what both have in common.
  \<^item> Semaphore: the named semaphore of \<^verbatim>\<open>app/Lock.cpp\<close>, with the threads that enter and leave a
    section by it as a step relation.
  \<^item> Threads: the thread class of \<^verbatim>\<open>app/Thread.cpp\<close> over the POSIX calls, and the rules of those calls.
  \<^item> LogUtils: \<open>hex_dump\<close> of \<^verbatim>\<open>app/LogUtils.cpp\<close> with its text, and the log stream of
    \<^verbatim>\<open>app/LogUtils.h\<close>. LogMacros: the colours, the macros and the log statements of that header.
  \<^item> DemoKernel: a concrete kernel with the documented behaviour, for the witnesses.
  \<^item> MapperProps, DescriptorProps, EngineProps, DeviceProps, ToolProps, AppProps, FileProps, and this theory:
    the properties.

  State and operations. The static variables of the driver are the fields of the record
  \<open>world\<close>, and the arrays and structures it allocates are maps from addresses to values
  in it. Every call into the kernel with an effect is recorded in the field \<open>trace\<close>;
  what the kernel answers is a function of the state and the arguments, a field of the record
  \<open>kapi\<close> that all definitions take as parameter \<open>K\<close>. Predicates such as
  \<open>kernel_ok\<close> state what the kernel's documentation promises of the answers. A function
  of the driver is a definition of type \<open>(world, 'a) prog\<close>; a \<open>BUG_ON\<close>, an
  access through a pointer to no object and an access past an array are crashes, and
  \<open>runs\<close> excludes them.

  What the lemmas show. One lemma per operation, named after it with \<open>_runs\<close>, gives its
  result and final state on every branch. Chain turns them into the device's view of a descriptor
  list. The properties state: what a write makes the device copy and what the card's memory then
  holds, when it returns, that it stays inside its arrays, gives back its pages and takes nothing away
  from the engine while it runs; what the list looks like to the
  device (contents, bounds, termination, prefetching); all-or-nothing pinning; probe and remove;
  what the mappings into user space expose; the invariant of the module's life and its refinement of
  the ledger; the register tool on hosts of both byte orders; what each device file can do and when
  its code is present; loading with devices present; atomicity and progress of the locked value; the
  semaphore's bound; the thread class; the dumps. Some properties state what goes wrong: these are
  the sections that say so.

  Bounds and fuel. Writes of up to \<open>2 ^ 42\<close> bytes are covered (the number of pages then
  fits the driver's \<open>int\<close>), and mapped segments of up to \<open>M\<close> bytes with
  \<open>258047 + M < 2 ^ 32\<close> (the length of a descriptor then fits its field). The walk of a
  descriptor list has the length of the array as fuel; reaching the end within it is part of the
  property. No other definition uses fuel.

  Simplifications that matter. In the life of the module (Lifecycle) a device is bound by a step of
  its own, as when it is plugged in later; Loading models the devices that are present when
  \<open>pci_register_driver\<close> is called. Sleeping and \<open>mdelay\<close> are events
  without duration. Writers running at once are considered for the register sequences only (Launch).
  POSIX threads, locks and semaphores are modelled by their documented behaviour, and the log4cpp
  library is a parameter.

  Not modelled: the \<open>pr_debug\<close> output other than the dump of the descriptors, which does not change
  the state; the branch of \<^verbatim>\<open>app/Lock.cpp\<close> with unnamed semaphores, which a macro of that file
  switches off; \<^verbatim>\<open>app/test_xpcie.cpp\<close>, which is a manual test with a card in the machine; scripts and build files.
\<close>

section \<open>Writing a user buffer to the card\<close>

text \<open>
  C1: A write whose buffer can be pinned and mapped and for whose descriptors there is memory
  returns the number of bytes. The engine has been given the bus address of a list of descriptors,
  and following that list makes the device copy exactly the bytes of the user buffer, in order, to
  consecutive addresses of the card starting at the file position.
\<close>

theorem write_moves_buffer:
  assumes "kernel_ok K M" and "user_buffer buf cnt" and "sgms w 0 = None"
    and "h2c_map_buffer K buf cnt 1 w = Inr ((m, n), w1)" and "0 < n"
    and "fst (k_pci_alloc_consistent K w1 (xpcie_dev w) (word_of_int n * sizeof_xdma_desc)) \<noteq> 0"
  shows "\<exists>w' es virt bus ds lst wm xs.
    xpcie_h2c_write K buf cnt ppos w = Inr (int (unat cnt), w')
    \<and> trace w' = trace w @ es \<and> programmed K w bus (length lst) es \<and> mapped_in w es buf cnt wm xs
    \<and> desc_arrs w' virt = Some ds \<and> follow K (length ds) (desc_mem bus ds) bus = Some lst
    \<and> map (map_prod (k_dma_target K wm (xpcie_dev w) xs DMA_TO_DEVICE) id) (plan K lst)
        = zip (buffer_slots (pins es) (unat buf mod 4096) (unat cnt)) (span ppos (unat cnt))"
proof -
  obtain rc w' where w': "xpcie_h2c_write K buf cnt ppos w = Inr (rc, w')" "h2c_done K M w buf cnt ppos rc w'"
    using h2c_write_completes [OF assms, of ppos] unfolding runs_iff by blast
  moreover have "rc = int (unat cnt)"
    using w'(2) user_buffer_sint [OF assms(2)] by (simp add: h2c_done_def)
  ultimately show ?thesis
    using h2c_done_transfer [OF w'(2) assms(2)] by blast
qed


theorem write_moves_buffer_witness:
  "\<exists>w' es bus n. xpcie_h2c_write demo_kernel 0x1FF8 16 0x100 demo_world = Inr (16, w')
    \<and> trace w' = trace demo_world @ es \<and> programmed demo_kernel demo_world bus n es"
proof -
  obtain w1 where "h2c_map_buffer demo_kernel 0x1FF8 16 1 demo_world = Inr ((4096, 2), w1)"
    "fst (k_pci_alloc_consistent demo_kernel w1 (xpcie_dev demo_world) (word_of_int 2 * sizeof_xdma_desc)) \<noteq> 0"
    using demo_mapping by blast
  from write_moves_buffer [OF demo_kernel_ok demo_user_buffer demo_null(1) this(1) _ this(2), of "0x100"]
  show ?thesis by auto
qed



text \<open>
  C3: For every kernel with the documented behaviour and every user buffer, a write never accesses
  memory past the end of one of its arrays. It returns exactly if the buffer could be pinned and
  mapped and there was memory for the descriptors, and then it returns the number of bytes, whatever
  the status register of the engine has said before, during and after the transfer.
\<close>

theorem write_in_bounds:
  assumes "kernel_ok K M" and "user_buffer buf cnt" and "sgms w 0 = None" and "desc_arrs w 0 = None"
  shows "(case xpcie_h2c_write K buf cnt ppos w of Inl c \<Rightarrow> c \<noteq> Out_Of_Bounds | Inr (rc, w') \<Rightarrow> rc = int (unat cnt))
    \<and> ((\<exists>r. xpcie_h2c_write K buf cnt ppos w = Inr r) \<longleftrightarrow>
        (\<exists>m n w1. h2c_map_buffer K buf cnt 1 w = Inr ((m, n), w1) \<and> 0 < n
          \<and> fst (k_pci_alloc_consistent K w1 (xpcie_dev w) (word_of_int n * sizeof_xdma_desc)) \<noteq> 0))
    \<and> (\<forall>status. (\<exists>r. xpcie_h2c_write (K\<lparr>k_ioread32 := status\<rparr>) buf cnt ppos w = Inr r)
        \<longleftrightarrow> (\<exists>r. xpcie_h2c_write K buf cnt ppos w = Inr r))"
proof (intro conjI allI)
  show "case xpcie_h2c_write K buf cnt ppos w of Inl c \<Rightarrow> c \<noteq> Out_Of_Bounds | Inr (rc, w') \<Rightarrow> rc = int (unat cnt)"
    using h2c_write_result [of K M cnt buf w ppos] assms user_buffer_sint [OF assms(2)]
    by (auto simp: kernel_ok_def user_buffer_def h2c_result_def h2c_done_def split: sum.splits)
qed (rule h2c_write_returns_iff [OF assms] h2c_write_status [OF assms])+

theorem write_in_bounds_witness:
  "(case xpcie_h2c_write demo_kernel 0x1FF8 16 0x100 demo_world of
      Inl c \<Rightarrow> c \<noteq> Out_Of_Bounds | Inr (rc, w') \<Rightarrow> rc = int (unat (16 :: u64)))
    \<and> (\<exists>r. xpcie_h2c_write (demo_kernel\<lparr>k_ioread32 := \<lambda>_ _. 0xFFFFFFFF\<rparr>) 0x1FF8 16 0x100 demo_world = Inr r)"
proof -
  obtain w1 where "h2c_map_buffer demo_kernel 0x1FF8 16 1 demo_world = Inr ((4096, 2), w1)"
    "fst (k_pci_alloc_consistent demo_kernel w1 (xpcie_dev demo_world) (word_of_int 2 * sizeof_xdma_desc)) \<noteq> 0"
    using demo_mapping by blast
  then have "\<exists>m n w1. h2c_map_buffer demo_kernel 0x1FF8 16 1 demo_world = Inr ((m, n), w1) \<and> 0 < n
      \<and> fst (k_pci_alloc_consistent demo_kernel w1 (xpcie_dev demo_world) (word_of_int n * sizeof_xdma_desc)) \<noteq> 0"
    by (intro exI [of _ 4096] exI [of _ 2] exI [of _ w1]) simp
  then show ?thesis using write_in_bounds [OF demo_kernel_ok demo_user_buffer demo_null, of "0x100"] by blast
qed

text \<open>
  C4: A write that returns releases every page it pinned, as often as it pinned it, and frees its
  mapper: the objects on the heap are the ones from before, except for one array of descriptors,
  which nothing the write does ever frees; no mapping of the device's registers has changed.
\<close>

theorem write_restores_heap:
  assumes "kernel_ok K M" and "user_buffer buf cnt" and "sgms w 0 = None" and "desc_arrs w 0 = None"
    and "xpcie_h2c_write K buf cnt ppos w = Inr (rc, w')"
  shows "sgms w' = sgms w \<and> page_arrs w' = page_arrs w \<and> sgl_arrs w' = sgl_arrs w \<and> bar w' = bar w
    \<and> (\<exists>es virt ds. trace w' = trace w @ es \<and> mset (pins es) = mset (unpins es)
      \<and> desc_arrs w' = (desc_arrs w)(virt \<mapsto> ds) \<and> virt \<noteq> 0 \<and> ds \<noteq> []
      \<and> (\<forall>dev sz v b. Dma (E_free_coherent dev sz v b) \<notin> set es))"
proof -
  have "h2c_done K M w buf cnt ppos rc w'"
    using h2c_write_result [of K M cnt buf w ppos] assms by (simp add: kernel_ok_def user_buffer_def h2c_result_def)
  then obtain es virt ds where "w' = put_descs (logged w es) virt ds" "virt \<noteq> 0" "ds \<noteq> []"
    "\<forall>dev sz v b. Dma (E_free_coherent dev sz v b) \<notin> set es" "pins es = unpins es"
    using h2c_done_frame by blast
  then show ?thesis
    by (intro conjI exI [of _ es] exI [of _ virt] exI [of _ ds]) (auto simp: put_descs_def)
qed

theorem write_restores_heap_witness:
  "\<exists>rc w'. xpcie_h2c_write demo_kernel 0x1FF8 16 0x100 demo_world = Inr (rc, w') \<and> sgms w' = sgms demo_world
    \<and> (\<exists>virt ds. desc_arrs w' = [virt \<mapsto> ds])"
proof -
  have "(case xpcie_h2c_write demo_kernel 0x1FF8 16 0x100 demo_world of Inl _ \<Rightarrow> False | Inr r \<Rightarrow> True)"
    by code_simp
  then obtain rc w' where "xpcie_h2c_write demo_kernel 0x1FF8 16 0x100 demo_world = Inr (rc, w')"
    by (auto split: sum.splits)
  with write_restores_heap [OF demo_kernel_ok demo_user_buffer demo_null this]
  show ?thesis by (auto simp: demo_world_def)
qed

text \<open>
  C5: Nothing the engine may still use is given away: in the events of a write that returns, pages are
  pinned before the scatter list is mapped, the list is mapped when the engine is started, the engine
  has been stopped when the list is unmapped with the arguments it was mapped with, and only then are
  the pages released and the list freed. The engine is started once; nothing is left over.
\<close>

theorem write_keeps_dma_order:
  assumes "kernel_ok K M" and "user_buffer buf cnt" and "sgms w 0 = None" and "desc_arrs w 0 = None"
    and "blocks_at (engine_regs_h2c w) (engine_sgdma_regs w)" and "xpcie_h2c_write K buf cnt ppos w = Inr (rc, w')"
  shows "\<exists>es. trace w' = trace w @ es \<and> dma_run (engine_regs_h2c w + 0x04) es dma_idle = Some dma_idle
    \<and> starts (engine_regs_h2c w + 0x04) es = 1"
proof -
  have "h2c_done K M w buf cnt ppos rc w'"
    using h2c_write_result [of K M cnt buf w ppos] assms by (simp add: kernel_ok_def user_buffer_def h2c_result_def)
  then show ?thesis by (rule h2c_done_order [OF _ assms(5)])
qed

theorem write_keeps_dma_order_witness:
  "\<exists>rc w'. xpcie_h2c_write demo_kernel 0x1FF8 16 0x100 demo_world = Inr (rc, w')
    \<and> dma_run 0x10004 (trace w') dma_idle = Some dma_idle \<and> starts 0x10004 (trace w') = 1"
proof -
  have "(case xpcie_h2c_write demo_kernel 0x1FF8 16 0x100 demo_world of Inl _ \<Rightarrow> False | Inr r \<Rightarrow> True)"
    by code_simp
  then obtain rc w' where r: "xpcie_h2c_write demo_kernel 0x1FF8 16 0x100 demo_world = Inr (rc, w')"
    by (auto split: sum.splits)
  have "blocks_at (engine_regs_h2c demo_world) (engine_sgdma_regs demo_world)"
    by (simp add: blocks_at_def demo_world_def TARGET_SPACING_def)
  from write_keeps_dma_order [OF demo_kernel_ok demo_user_buffer demo_null this r] r
  show ?thesis by (auto simp: demo_world_def)
qed

section \<open>The life of the module\<close>







text \<open>
  C26: A load that succeeds followed by an unload leaves nothing registered: the driver, the three
  character device numbers, the class and the three device files are all given back.
\<close>

theorem exit_undoes_init:
  "runs (mbind (xpcie_init K) (\<lambda>rc. mbind (if rc = 0 then xpcie_exit else ret ()) (\<lambda>_. ret rc))) w
    (\<lambda>rc w'. same_hw w w' \<and> rc \<in> {0, - 1} \<and> (\<exists>es. trace w' = trace w @ es
      \<and> (rc = 0 \<longrightarrow> length (acquired es) = 8 \<and> mset (acquired es) = mset (released es))))"
  unfolding runs_mbind [of "xpcie_init K"]
proof (rule runs_weaken [OF xpcie_init_runs])
  fix rc w1
  assume o: "init_outcome K w rc w1"
  show "runs (mbind (if rc = 0 then xpcie_exit else ret ()) (\<lambda>_. ret rc)) w1
    (\<lambda>rc w'. same_hw w w' \<and> rc \<in> {0, - 1} \<and> (\<exists>es. trace w' = trace w @ es
      \<and> (rc = 0 \<longrightarrow> length (acquired es) = 8 \<and> mset (acquired es) = mset (released es))))"
  proof (cases "rc = 0")
    case False
    then show ?thesis using o by (auto simp: init_outcome_def)
  next
    case True
    from o obtain es where es: "same_hw w w1" "trace w1 = trace w @ es" "released es = []" "acquired es = registered w1"
      unfolding init_outcome_def using True by blast
    have "runs xpcie_exit w1 (\<lambda>_ w'. same_hw w w' \<and> (\<exists>fs. trace w' = trace w @ fs
        \<and> length (acquired fs) = 8 \<and> mset (acquired fs) = mset (released fs)))"
    proof (rule runs_weaken [OF xpcie_exit_runs], elim conjE exE)
      fix w' gs
      assume g: "same_hw w1 w'" "trace w' = trace w1 @ gs" "acquired gs = []" "mset (released gs) = mset (registered w1)"
      have "same_hw w w'" using es(1) g(1) by (simp add: same_hw_def)
      moreover have "length (registered w1) = 8" by (simp add: registered_def)
      ultimately show "same_hw w w' \<and> (\<exists>fs. trace w' = trace w @ fs
          \<and> length (acquired fs) = 8 \<and> mset (acquired fs) = mset (released fs))"
        using es g by (intro conjI exI [of _ "es @ gs"]) auto
    qed
    then show ?thesis using True by simp
  qed
qed

theorem exit_undoes_init_witness:
  "runs (mbind (xpcie_init demo_kernel) (\<lambda>rc. mbind (if rc = 0 then xpcie_exit else ret ()) (\<lambda>_. ret rc))) demo_world
    (\<lambda>rc w'. rc = 0 \<and> length (acquired (trace w')) = 8 \<and> mset (acquired (trace w')) = mset (released (trace w')))"
proof -
  have "runs (mbind (xpcie_init demo_kernel) (\<lambda>rc. mbind (if rc = 0 then xpcie_exit else ret ()) (\<lambda>_. ret rc)))
      demo_world (\<lambda>rc _. rc = 0)"
    by code_simp
  from runs_weaken [OF runs_conj [OF this exit_undoes_init]] show ?thesis
    by (rule runs_weaken) (auto simp: demo_world_def)
qed

section \<open>What goes wrong\<close>

text \<open>
  C31: A write that cannot be served does not fail, it stops the kernel: writing zero bytes follows
  the null pointer that the mapper's constructor returns, and writing from a buffer of which the
  kernel cannot pin every page, for instance one that is not mapped, never returns either.
\<close>

theorem bad_write_crashes:
  assumes "kernel_ok K M" and "sgms w 0 = None"
    and "cnt = 0 \<or> user_buffer buf cnt \<and> (\<forall>v n. fst (k_get_user_pages_fast K v buf n False) < n)"
  shows "xpcie_h2c_write K buf cnt ppos w \<in> {Inl Bug_On, Inl Bad_Pointer}
    \<and> (cnt = 0 \<longrightarrow> xpcie_h2c_write K buf cnt ppos w = Inl Bad_Pointer)"
proof (cases "cnt = 0")
  case True
  then show ?thesis using h2c_write_empty [OF assms(2)] by simp
next
  case False
  then show ?thesis
    using h2c_write_short [of K cnt buf w ppos] assms by (auto simp: kernel_ok_def user_buffer_def)
qed

definition faulting_kernel :: kapi where
  "faulting_kernel = demo_kernel\<lparr>k_get_user_pages_fast := (\<lambda>w a n wr. (min (n - 1) (- 14), []))\<rparr>"

lemma faulting_kernel_ok: "kernel_ok faulting_kernel 4096"
proof -
  have "kcalloc_ok faulting_kernel = kcalloc_ok demo_kernel" "sg_api_ok faulting_kernel = sg_api_ok demo_kernel"
    "map_sg_ok faulting_kernel 4096 = map_sg_ok demo_kernel 4096" "byte_order_ok faulting_kernel = byte_order_ok demo_kernel"
    "coherent_ok faulting_kernel = coherent_ok demo_kernel"
    by (simp_all add: faulting_kernel_def kcalloc_ok_def sg_api_ok_def map_sg_ok_def byte_order_ok_def coherent_ok_def)
  moreover have "gup_ok faulting_kernel" by (auto simp: gup_ok_def faulting_kernel_def)
  ultimately show ?thesis using demo_kernel_ok by (simp add: kernel_ok_def)
qed

theorem bad_write_crashes_witness:
  "xpcie_h2c_write faulting_kernel 0x1FF8 16 0x100 demo_world \<in> {Inl Bug_On, Inl Bad_Pointer}
    \<and> xpcie_h2c_write faulting_kernel 0x1FF8 0 0x100 demo_world = Inl Bad_Pointer"
proof -
  have "\<forall>v n. fst (k_get_user_pages_fast faulting_kernel v 0x1FF8 n False) < n"
    by (simp add: faulting_kernel_def min_def)
  then show ?thesis
    using bad_write_crashes [OF faulting_kernel_ok demo_null(1), where cnt = 16 and buf = "0x1FF8" and ppos = "0x100"]
      bad_write_crashes [OF faulting_kernel_ok demo_null(1), where cnt = 0 and buf = "0x1FF8" and ppos = "0x100"]
      demo_user_buffer by auto
qed



end
